theory Spec2Isabelle
  imports Complex_Main
begin

section \<open>Data model (types.ts)\<close>

text \<open>
  The interfaces of the debate engine, one record per TypeScript interface and one
  datatype per enum or string union. A field of the source whose name is used by two
  interfaces carries the interface as a prefix here (\<open>id\<close> of an Agent is
  \<open>agent_id\<close>, \<open>id\<close> of a Message is \<open>msg_id\<close>); an optional field
  \<open>f?: T\<close> is a \<open>T option\<close>, and \<open>string | null\<close> is a \<open>string option\<close>.
  JavaScript numbers that only ever hold counters (rounds, scores, timestamps) are \<open>int\<close>.
\<close>

datatype AgentRole =
  OPTIMIST | SKEPTIC | REALIST | VISIONARY | HISTORIAN | SCIENTIST | MODERATOR
  | ETHICIST | ECONOMIST | GUEST

record Agent =
  agent_id :: string
  agent_name :: string
  agent_role :: AgentRole
  systemPrompt :: string
  avatarColor :: string
  description :: string
  modelOverride :: "string option"

datatype Severity = Minor | Major

record Fallacy =
  fallacy_name :: string
  fallacy_reason :: string
  severity :: Severity

datatype DebatePhase = SETUP | OPENING | REBUTTAL | SYNTHESIS | VOTING | VERDICT | USER_INPUT

datatype MessageType = TextMsg | ResearchMsg | VoteMsg | ErrorMsg

record Citation =
  cite_title :: string
  cite_uri :: string

record Message =
  msg_id :: string
  agentId :: string
  content :: string
  timestamp :: int
  msg_type :: MessageType
  citations :: "Citation list option"
  msg_phase :: "DebatePhase option"
  isGuest :: "bool option"
  guestRole :: "string option"
  fallacy :: "Fallacy option"

record Vote =
  voterId :: string
  targetAgentId :: string
  score :: int
  reason :: string

record FinalVerdict =
  winnerId :: string
  summary :: string
  keyTakeaways :: "string list"
  votes :: "Vote list"

datatype DebateMode = FIXED | AUTO

text \<open>
  \<open>totalCost\<close> is a floating-point sum in the source. No function below computes with
  it: the accounting calls (\<open>updateUsage\<close>) of a step reach the state as one function
  on this record, passed to the step.
\<close>

record TokenUsage =
  inputTokens :: int
  outputTokens :: int
  totalCost :: real

record ContextDocument =
  doc_id :: string
  doc_content :: string
  doc_timestamp :: int

record SummonedGuest =
  sg_name :: string
  sg_role :: string
  sg_reason :: string

record DebateState =
  topic :: string
  mode :: DebateMode
  maxRounds :: int
  currentRound :: int
  phase :: DebatePhase
  currentTurnAgentId :: "string option"
  transcript :: "Message list"
  isThinking :: bool
  thinkingAgentId :: "string option"
  pendingUserQuestion :: "string option"
  finalVerdict :: "FinalVerdict option"
  tokenUsage :: TokenUsage
  userRequestedStop :: bool
  showConsultationPrompt :: bool
  summonedGuest :: "SummonedGuest option"
  contextDocuments :: "ContextDocument list"

section \<open>Errors\<close>

text \<open>
  What the provider's SDK throws carries an optional \<open>status\<close>, \<open>code\<close> and
  \<open>message\<close>; these are the only parts \<open>generateContentWithRetry\<close> reads.
  \<open>TypeError\<close> is JavaScript's error for reading a property of \<open>undefined\<close> or
  \<open>null\<close>, as in \<open>agents[0].id\<close> on an empty roster.
\<close>

record ApiError =
  err_status :: "int option"
  err_code :: "int option"
  err_message :: "string option"

datatype error = TypeError | ApiKeyNotFound | ProviderError ApiError

section \<open>JavaScript helpers\<close>

text \<open>\<open>Array.prototype.findIndex\<close>: the first index whose element satisfies the
  predicate, or \<open>-1\<close>.\<close>

fun findIndex :: "('a \<Rightarrow> bool) \<Rightarrow> 'a list \<Rightarrow> int" where
  "findIndex P [] = - 1"
| "findIndex P (x # xs) =
     (if P x then 0 else (let r = findIndex P xs in if r < 0 then - 1 else r + 1))"

text \<open>\<open>xs[i]\<close>: \<open>undefined\<close> (here \<open>None\<close>) outside the array.\<close>

definition at_index :: "'a list \<Rightarrow> int \<Rightarrow> 'a option" where
  "at_index xs i = (if 0 \<le> i \<and> i < int (length xs) then Some (xs ! nat i) else None)"

text \<open>\<open>xs[i].id\<close> on the roster: a \<open>TypeError\<close> when \<open>xs[i]\<close> is \<open>undefined\<close>.\<close>

definition id_at :: "Agent list \<Rightarrow> int \<Rightarrow> error + string" where
  "id_at agents i = (case at_index agents i of None \<Rightarrow> Inl TypeError | Some a \<Rightarrow> Inr (agent_id a))"

section \<open>The state machine (App component)\<close>

definition INITIAL_STATE :: DebateState where
  "INITIAL_STATE =
     \<lparr> topic = [], mode = AUTO, maxRounds = 2, currentRound = 1, phase = SETUP,
       currentTurnAgentId = None, transcript = [], isThinking = False,
       thinkingAgentId = None, pendingUserQuestion = None, finalVerdict = None,
       tokenUsage = \<lparr> inputTokens = 0, outputTokens = 0, totalCost = 0 \<rparr>,
       userRequestedStop = False, showConsultationPrompt = False, summonedGuest = None,
       contextDocuments = [] \<rparr>"

text \<open>
  \<open>addMessage\<close>. The message id is \<open>existingId || uuidv4()\<close> and the time is
  \<open>Date.now()\<close>: the fresh id \<open>uuid\<close> and the clock reading \<open>now\<close> are arguments.
  \<open>phase || state.phase\<close> reads the phase of the state the component rendered with
  (\<open>rendered\<close>), not of the state the update is applied to.
\<close>

definition addMessage ::
  "DebateState \<Rightarrow> string \<Rightarrow> int \<Rightarrow> string \<Rightarrow> string \<Rightarrow> Citation list option \<Rightarrow>
   DebatePhase option \<Rightarrow> bool \<Rightarrow> string option \<Rightarrow> string option \<Rightarrow> DebateState \<Rightarrow> DebateState" where
  "addMessage rendered uuid now agent body cites ph guest grole existingId prev =
     prev\<lparr> transcript := transcript prev @
       [\<lparr> msg_id = (case existingId of Some i \<Rightarrow> (if i = [] then uuid else i) | None \<Rightarrow> uuid),
          agentId = agent, content = body, timestamp = now, msg_type = TextMsg,
          citations = cites,
          msg_phase = Some (case ph of Some p \<Rightarrow> p | None \<Rightarrow> phase rendered),
          isGuest = Some guest, guestRole = grole, fallacy = None \<rparr>] \<rparr>"

definition updateMessageFallacy :: "string \<Rightarrow> Fallacy \<Rightarrow> DebateState \<Rightarrow> DebateState" where
  "updateMessageFallacy msgId f prev =
     prev\<lparr> transcript := map (\<lambda>m. if msg_id m = msgId then m\<lparr> fallacy := Some f \<rparr> else m)
                              (transcript prev) \<rparr>"







definition handleStop :: "DebateState \<Rightarrow> string \<Rightarrow> int \<Rightarrow> DebateState \<Rightarrow> DebateState" where
  "handleStop rendered uuid now prev =
     addMessage rendered uuid now ''system''
       ''Debate stop requested. Concluding current phase...'' None None False None None
       (prev\<lparr> userRequestedStop := True \<rparr>)"

definition handleDirectorForcePhase :: "Agent list \<Rightarrow> DebatePhase \<Rightarrow> DebateState \<Rightarrow> error + DebateState" where
  "handleDirectorForcePhase agents ph prev =
     (if ph = VOTING
      then Inr (prev\<lparr> phase := ph, currentTurnAgentId := None, isThinking := False,
                      userRequestedStop := False \<rparr>)
      else (case id_at agents 0 of
              Inl e \<Rightarrow> Inl e
            | Inr first \<Rightarrow>
                Inr (prev\<lparr> phase := ph, currentTurnAgentId := Some first, isThinking := False,
                           userRequestedStop := False \<rparr>)))"

text \<open>
  \<open>advanceTurn\<close>, the turn-rotation boundary. \<open>finishTurn\<close> is the tail of the
  updater that every path except the two early returns reaches (the test
  \<open>nextPhase === VOTING\<close> and the final object), given the \<open>nextIndex\<close>,
  \<open>nextPhase\<close> and \<open>nextRound\<close> the branches above it have set.
\<close>

definition finishTurn :: "Agent list \<Rightarrow> DebateState \<Rightarrow> int \<Rightarrow> DebatePhase \<Rightarrow> int \<Rightarrow> error + DebateState" where
  "finishTurn agents prev nextIndex nextPhase nextRound =
     (if nextPhase = VOTING
      then Inr (prev\<lparr> currentTurnAgentId := None, phase := nextPhase, isThinking := False \<rparr>)
      else (case id_at agents nextIndex of
              Inl e \<Rightarrow> Inl e
            | Inr next \<Rightarrow>
                Inr (prev\<lparr> currentTurnAgentId := Some next, phase := nextPhase,
                           currentRound := nextRound, isThinking := False,
                           thinkingAgentId := None \<rparr>)))"

definition advanceTurn :: "Agent list \<Rightarrow> DebateState \<Rightarrow> error + DebateState" where
  "advanceTurn agents prev =
     (if userRequestedStop prev
      then Inr (prev\<lparr> currentTurnAgentId := None, phase := VOTING, isThinking := False \<rparr>)
      else
        (let currentAgentIndex = findIndex (\<lambda>a. Some (agent_id a) = currentTurnAgentId prev) agents;
             nextIndex = currentAgentIndex + 1
         in if nextIndex \<ge> int (length agents)
            then
              (if phase prev = OPENING then finishTurn agents prev 0 REBUTTAL (currentRound prev)
               else if phase prev = REBUTTAL then finishTurn agents prev 0 SYNTHESIS (currentRound prev)
               else if phase prev = SYNTHESIS then
                 (if mode prev = FIXED then
                    (if currentRound prev \<ge> maxRounds prev
                     then finishTurn agents prev 0 VOTING (currentRound prev)
                     else finishTurn agents prev 0 REBUTTAL (currentRound prev + 1))
                  else Inr (prev\<lparr> currentTurnAgentId := Some ''ORCHESTRATOR'', phase := phase prev,
                                  isThinking := False \<rparr>))
               else finishTurn agents prev 0 (phase prev) (currentRound prev))
            else finishTurn agents prev nextIndex (phase prev) (currentRound prev)))"

section \<open>The generation client (geminiService.ts)\<close>







text \<open>
  \<open>generateGeneric\<close> has no \<open>try\<close>: what the provider call throws (after the
  retries above on the primary provider) leaves it unchanged, and what it returns is a
  \<open>GenericResponse\<close>. The functions below take that outcome, \<open>error + GenericResponse\<close>,
  as their argument; the prompt they build is not part of the model, since it reaches
  the provider only. The \<open>usage\<close> counters of a response are read by the accounting
  alone and are left out.
\<close>

record ToolCall =
  tool_name :: string
  tool_args :: "(string \<times> string) list"
  tool_id :: string

record GenericResponse =
  resp_text :: string
  resp_citations :: "Citation list option"
  resp_toolCall :: "ToolCall option"
  resp_searchQueries :: nat

text \<open>
  A structured reply: the text of the response after \<open>JSON.parse(cleanText || '{}')\<close>.
  \<open>Unparseable\<close>: \<open>JSON.parse\<close> threw. \<open>JsonNull\<close>: it returned \<open>null\<close>, so a
  property read throws a \<open>TypeError\<close>. \<open>JsonObject\<close>: any other value, as the record of
  the properties the caller reads, each absent (\<open>undefined\<close>) or present at the type of
  the response schema.
\<close>

datatype 'j parsed = Unparseable | JsonNull | JsonObject 'j

record VoteJson =
  vj_targetAgentId :: "string option"
  vj_score :: "int option"
  vj_reason :: "string option"

record VerdictJson =
  fj_winnerId :: "string option"
  fj_summary :: "string option"
  fj_keyTakeaways :: "string list option"

record Guest =
  guest_name :: string
  guest_role :: string
  guest_systemPrompt :: string
  guest_reason :: string

record DecisionJson =
  dj_shouldConclude :: "bool option"
  dj_guidance :: "string option"
  dj_shouldConsultUser :: "bool option"
  dj_summonGuest :: "Guest option"

record OrchestratorDecision =
  shouldConclude :: bool
  guidance :: string
  shouldConsultUser :: bool
  summonGuest :: "Guest option"

text \<open>\<open>x || d\<close> on an optional string and on an optional number: the default is
  taken when \<open>x\<close> is \<open>undefined\<close>, the empty string or zero.\<close>

definition or_string :: "string option \<Rightarrow> string \<Rightarrow> string" where
  "or_string x d = (case x of None \<Rightarrow> d | Some v \<Rightarrow> (if v = [] then d else v))"

definition or_number :: "int option \<Rightarrow> int \<Rightarrow> int" where
  "or_number x d = (case x of None \<Rightarrow> d | Some v \<Rightarrow> (if v = 0 then d else v))"

definition generateAgentTurn :: "error + GenericResponse \<Rightarrow> GenericResponse" where
  "generateAgentTurn outcome =
     (case outcome of
        Inl e \<Rightarrow>
          \<lparr> resp_text = ''Error generating response.'', resp_citations = None,
            resp_toolCall = None, resp_searchQueries = 0 \<rparr>
      | Inr response \<Rightarrow>
          (case resp_toolCall response of
             Some tc \<Rightarrow> response
           | None \<Rightarrow>
               \<lparr> resp_text = or_string (Some (resp_text response)) ''I have no further comments.'',
                 resp_citations = resp_citations response, resp_toolCall = None,
                 resp_searchQueries = resp_searchQueries response \<rparr>))"

definition generateToolResponse :: "error + GenericResponse \<Rightarrow> error + GenericResponse" where
  "generateToolResponse outcome =
     (case outcome of
        Inl e \<Rightarrow> Inl e
      | Inr response \<Rightarrow>
          Inr \<lparr> resp_text = or_string (Some (resp_text response)) ''Acknowledged.'',
                resp_citations = resp_citations response, resp_toolCall = None,
                resp_searchQueries = resp_searchQueries response \<rparr>)"

text \<open>
  \<open>castVote\<close>. The default vote is built after the call returned and before the
  \<open>try\<close>: \<open>candidates[0].id\<close> throws there when no candidate is left. Inside the
  \<open>try\<close> a failed parse, or a property read of \<open>null\<close>, keeps the default vote.
\<close>

definition castVote :: "Agent \<Rightarrow> Agent list \<Rightarrow> error + VoteJson parsed \<Rightarrow> error + Vote" where
  "castVote agent otherAgents reply =
     (let candidates = filter (\<lambda>a. agent_id a \<noteq> agent_id agent) otherAgents
      in case reply of
           Inl e \<Rightarrow> Inl e
         | Inr p \<Rightarrow>
             (case id_at candidates 0 of
                Inl e \<Rightarrow> Inl e
              | Inr firstCandidate \<Rightarrow>
                  (case p of
                     JsonObject json \<Rightarrow>
                       Inr \<lparr> voterId = agent_id agent,
                             targetAgentId = or_string (vj_targetAgentId json) firstCandidate,
                             score = or_number (vj_score json) 5,
                             reason = or_string (vj_reason json) ''Good points.'' \<rparr>
                   | _ \<Rightarrow>
                       Inr \<lparr> voterId = agent_id agent, targetAgentId = firstCandidate,
                             score = 5, reason = ''Default'' \<rparr>)))"

text \<open>\<open>generateFinalVerdict\<close>: here the properties are read outside the \<open>try\<close>.\<close>

definition generateFinalVerdict ::
  "Vote list \<Rightarrow> Agent list \<Rightarrow> error + VerdictJson parsed \<Rightarrow> error + FinalVerdict" where
  "generateFinalVerdict vs agents reply =
     (case reply of
        Inl e \<Rightarrow> Inl e
      | Inr JsonNull \<Rightarrow> Inl TypeError
      | Inr p \<Rightarrow>
          (let json = (case p of JsonObject j \<Rightarrow> j
                       | _ \<Rightarrow> \<lparr> fj_winnerId = None, fj_summary = None, fj_keyTakeaways = None \<rparr>)
           in case (case fj_winnerId json of
                      None \<Rightarrow> id_at agents 0
                    | Some w \<Rightarrow> (if w = [] then id_at agents 0 else Inr w)) of
                Inl e \<Rightarrow> Inl e
              | Inr winner \<Rightarrow>
                  Inr \<lparr> winnerId = winner,
                        summary = or_string (fj_summary json) ''Debate concluded.'',
                        keyTakeaways = (case fj_keyTakeaways json of None \<Rightarrow> [] | Some ks \<Rightarrow> ks),
                        votes = vs \<rparr>))"

definition orchestratorDecide :: "int \<Rightarrow> error + DecisionJson parsed \<Rightarrow> error + OrchestratorDecision" where
  "orchestratorDecide rnd reply =
     (case reply of
        Inl e \<Rightarrow> Inl e
      | Inr JsonNull \<Rightarrow> Inl TypeError
      | Inr p \<Rightarrow>
          (let json = (case p of JsonObject j \<Rightarrow> j
                       | _ \<Rightarrow> \<lparr> dj_shouldConclude = None, dj_guidance = None,
                                dj_shouldConsultUser = None, dj_summonGuest = None \<rparr>)
           in Inr \<lparr> shouldConclude = (dj_shouldConclude json = Some True \<or> rnd > 5),
                    guidance = or_string (dj_guidance json) ''Continue the debate.'',
                    shouldConsultUser = (dj_shouldConsultUser json = Some True),
                    summonGuest = dj_summonGuest json \<rparr>))"

section \<open>The orchestration loop (runDebateStep)\<close>

text \<open>
  The component's state next to \<open>DebateState\<close>: the two refs. A pending tool call is
  the pair of its id and its name.
\<close>

record Engine =
  debate :: DebateState
  processingRef :: bool
  pendingToolCallRef :: "(string \<times> string) option"

text \<open>
  What one step receives from outside: the values of \<open>uuidv4()\<close> and \<open>Date.now()\<close>
  (by the number of the message they are made for), the net effect of the step's
  \<open>updateUsage\<close> calls on the usage record, and the outcome of each remote call the
  step can make.
\<close>

record World =
  w_uuid :: "nat \<Rightarrow> string"
  w_clock :: "nat \<Rightarrow> int"
  w_accounting :: "TokenUsage \<Rightarrow> TokenUsage"
  w_voteReplies :: "nat \<Rightarrow> error + VoteJson parsed"
  w_verdictReply :: "error + VerdictJson parsed"
  w_decisionReply :: "error + DecisionJson parsed"
  w_turnReply :: "error + GenericResponse"
  w_resumeReply :: "error + GenericResponse"

text \<open>
  A step either runs to its end (\<open>Settled\<close>) or an exception leaves it
  (\<open>Escaped\<close>): a rejection no \<open>catch\<close> handles, or a state updater that throws.
  Both carry the engine as the step left it. State updaters \<open>setState(prev => ..)\<close>
  are applied in the order the step queues them.
\<close>

datatype outcome = Settled Engine | Escaped error Engine

definition billed :: "World \<Rightarrow> DebateState \<Rightarrow> DebateState" where
  "billed w s = s\<lparr> tokenUsage := w_accounting w (tokenUsage s) \<rparr>"

definition truthy :: "string option \<Rightarrow> bool" where
  "truthy x = (case x of None \<Rightarrow> False | Some v \<Rightarrow> v \<noteq> [])"

text \<open>The voting loop: \<open>for (const agent of agents)\<close> with its inner
  \<open>try\<close>/\<open>catch\<close>; \<open>vs\<close> is the array \<open>votes\<close>, \<open>i\<close> counts the calls.\<close>

fun collectVotes ::
  "Agent list \<Rightarrow> (nat \<Rightarrow> error + VoteJson parsed) \<Rightarrow> nat \<Rightarrow> Agent list \<Rightarrow> Vote list \<Rightarrow> Vote list" where
  "collectVotes agents replies i [] vs = vs"
| "collectVotes agents replies i (agent # rest) vs =
     (case castVote agent agents (replies i) of
        Inr v \<Rightarrow> collectVotes agents replies (Suc i) rest (vs @ [v])
      | Inl e \<Rightarrow> collectVotes agents replies (Suc i) rest vs)"

definition votingStep :: "Agent list \<Rightarrow> World \<Rightarrow> Engine \<Rightarrow> outcome" where
  "votingStep agents w eng =
     (let state = debate eng;
          s1 = billed w (state\<lparr> isThinking := True \<rparr>);
          vs = collectVotes agents (w_voteReplies w) 0 agents []
      in case generateFinalVerdict vs agents (w_verdictReply w) of
           Inl e \<Rightarrow> Settled (eng\<lparr> debate := s1, processingRef := False \<rparr>)
         | Inr verdict \<Rightarrow>
             Settled (eng\<lparr> debate := s1\<lparr> phase := VERDICT, isThinking := False,
                                          finalVerdict := Some verdict \<rparr>,
                          processingRef := False \<rparr>))"

text \<open>The updater \<open>currentTurnAgentId: agents[0].id, phase: REBUTTAL, ..\<close> that four
  paths of the orchestrator branch end with; \<open>bump\<close> says whether the round is
  incremented.\<close>

definition restartAtFirst :: "Agent list \<Rightarrow> bool \<Rightarrow> Engine \<Rightarrow> DebateState \<Rightarrow> outcome" where
  "restartAtFirst agents bump eng s =
     (case id_at agents 0 of
        Inl e \<Rightarrow> Escaped e (eng\<lparr> debate := s, processingRef := False \<rparr>)
      | Inr first \<Rightarrow>
          Settled (eng\<lparr> debate := s\<lparr> currentTurnAgentId := Some first, phase := REBUTTAL,
                                      currentRound := (if bump then currentRound s + 1 else currentRound s),
                                      isThinking := False \<rparr>,
                       processingRef := False \<rparr>))"

definition orchestratorStep :: "Agent list \<Rightarrow> World \<Rightarrow> Engine \<Rightarrow> outcome" where
  "orchestratorStep agents w eng =
     (let state = debate eng;
          s1 = state\<lparr> isThinking := True \<rparr>
      in case orchestratorDecide (currentRound state) (w_decisionReply w) of
           Inl e \<Rightarrow> restartAtFirst agents False eng s1
         | Inr decision \<Rightarrow>
             (let s2 = billed w s1
              in if shouldConclude decision \<or> userRequestedStop state
                 then Settled (eng\<lparr> debate :=
                          (addMessage state (w_uuid w 0) (w_clock w 0) ''system''
                             (''Chairperson Concluding: '' @ guidance decision)
                             None None False None None s2)
                          \<lparr> currentTurnAgentId := None, phase := VOTING, isThinking := False \<rparr>,
                        processingRef := False \<rparr>)
                 else (case summonGuest decision of
                         Some guest \<Rightarrow>
                           (let s3 = addMessage state (w_uuid w 0) (w_clock w 0) ''agent-chairperson''
                                       (''(Summoning Expert) I am calling upon '' @ guest_name guest
                                        @ '', a '' @ guest_role guest
                                        @ '', to clarify this point because: '' @ guest_reason guest)
                                       None None False None None s2;
                                s4 = s3\<lparr> summonedGuest := Some \<lparr> sg_name = guest_name guest,
                                           sg_role = guest_role guest, sg_reason = guest_reason guest \<rparr> \<rparr>;
                                guestResult = generateAgentTurn (w_turnReply w);
                                s5 = addMessage state (w_uuid w 2) (w_clock w 1) (guest_name guest)
                                       (resp_text guestResult) (resp_citations guestResult)
                                       (Some (phase state)) True (Some (guest_role guest))
                                       (Some (w_uuid w 1)) s4
                            in restartAtFirst agents True eng (s5\<lparr> summonedGuest := None \<rparr>))
                       | None \<Rightarrow>
                           (let s3 = addMessage state (w_uuid w 0) (w_clock w 0) ''agent-chairperson''
                                       (guidance decision) None None False None None s2
                            in if shouldConsultUser decision
                               then Settled (eng\<lparr> debate := s3\<lparr> isThinking := False,
                                                                  showConsultationPrompt := True \<rparr>,
                                                  processingRef := False \<rparr>)
                               else restartAtFirst agents True eng s3))))"

text \<open>\<open>advanceTurn()\<close> as the last update of a turn.\<close>

definition rotate :: "Agent list \<Rightarrow> Engine \<Rightarrow> DebateState \<Rightarrow> outcome" where
  "rotate agents eng s =
     (case advanceTurn agents s of
        Inl e \<Rightarrow> Escaped e (eng\<lparr> debate := s \<rparr>)
      | Inr s' \<Rightarrow> Settled (eng\<lparr> debate := s' \<rparr>))"

text \<open>Resume from a tool: \<open>try\<close> with \<open>finally\<close> and no \<open>catch\<close>. The early return
  on an unknown agent leaves \<open>processingRef\<close> set.\<close>

definition resumeStep :: "Agent list \<Rightarrow> World \<Rightarrow> Engine \<Rightarrow> outcome" where
  "resumeStep agents w eng =
     (let state = debate eng
      in case find (\<lambda>a. Some (agent_id a) = currentTurnAgentId state) agents of
           None \<Rightarrow> Settled (eng\<lparr> processingRef := True \<rparr>)
         | Some agent \<Rightarrow>
             (if transcript state = []
              then Escaped TypeError (eng\<lparr> processingRef := False \<rparr>)
              else (case generateToolResponse (w_resumeReply w) of
                      Inl e \<Rightarrow> Escaped e (eng\<lparr> processingRef := False \<rparr>)
                    | Inr result \<Rightarrow>
                        rotate agents (eng\<lparr> processingRef := False, pendingToolCallRef := None \<rparr>)
                          (addMessage state (w_uuid w 1) (w_clock w 0) (agent_id agent)
                             (resp_text result) (resp_citations result) None False None
                             (Some (w_uuid w 0)) (billed w state)))))"

text \<open>Start of a turn: \<open>try\<close> with \<open>catch (e) { advanceTurn() }\<close>.\<close>

definition startStep :: "Agent list \<Rightarrow> World \<Rightarrow> Engine \<Rightarrow> outcome" where
  "startStep agents w eng =
     (let state = debate eng;
          s1 = state\<lparr> isThinking := True, thinkingAgentId := currentTurnAgentId state \<rparr>
      in case find (\<lambda>a. Some (agent_id a) = currentTurnAgentId state) agents of
           None \<Rightarrow> Settled (eng\<lparr> debate := s1, processingRef := False \<rparr>)
         | Some agent \<Rightarrow>
             (let result = generateAgentTurn (w_turnReply w)
              in case resp_toolCall result of
                   Some tc \<Rightarrow>
                     (if tool_name tc = ''askUser''
                      then Settled (eng\<lparr> debate := (billed w s1)\<lparr> isThinking := False,
                                            phase := USER_INPUT,
                                            pendingUserQuestion := map_of (tool_args tc) ''question'' \<rparr>,
                                         processingRef := False,
                                         pendingToolCallRef := Some (tool_id tc, tool_name tc) \<rparr>)
                      else if tool_name tc = ''search_web''
                      then (case generateToolResponse (w_resumeReply w) of
                              Inl e \<Rightarrow>
                                rotate agents
                                  (eng\<lparr> processingRef := False,
                                        pendingToolCallRef := Some (tool_id tc, tool_name tc) \<rparr>)
                                  (billed w s1)
                            | Inr toolResult \<Rightarrow>
                                rotate agents
                                  (eng\<lparr> processingRef := False,
                                        pendingToolCallRef := Some (tool_id tc, tool_name tc) \<rparr>)
                                  (addMessage state (w_uuid w 1) (w_clock w 0) (agent_id agent)
                                     (resp_text toolResult) (resp_citations toolResult) None False None
                                     (Some (w_uuid w 0)) (billed w s1)))
                      else Settled (eng\<lparr> debate := s1, processingRef := False \<rparr>))
                 | None \<Rightarrow>
                     rotate agents (eng\<lparr> processingRef := False \<rparr>)
                       (addMessage state (w_uuid w 1) (w_clock w 0) (agent_id agent)
                          (resp_text result) (resp_citations result) None False None
                          (Some (w_uuid w 0)) (billed w s1))))"

definition runDebateStep :: "Agent list \<Rightarrow> World \<Rightarrow> Engine \<Rightarrow> outcome" where
  "runDebateStep agents w eng =
     (let state = debate eng
      in if processingRef eng then Settled eng
         else if truthy (pendingUserQuestion state) then Settled eng
         else if showConsultationPrompt state then Settled eng
         else if phase state = VOTING \<and> \<not> isThinking state \<and> finalVerdict state = None
           then votingStep agents w eng
         else if currentTurnAgentId state = Some ''ORCHESTRATOR'' then orchestratorStep agents w eng
         else if \<not> truthy (currentTurnAgentId state) \<or> phase state = VERDICT then Settled eng
         else if isThinking state \<and> pendingToolCallRef eng = None then Settled eng
         else if pendingToolCallRef eng \<noteq> None \<and> isThinking state then resumeStep agents w eng
         else if \<not> isThinking state then startStep agents w eng
         else Settled eng)"

section \<open>Runs and observations\<close>




text \<open>The engine a step leaves behind, and the exception that left it, if any.\<close>

definition engine_of :: "outcome \<Rightarrow> Engine" where
  "engine_of out = (case out of Settled e \<Rightarrow> e | Escaped x e \<Rightarrow> e)"

definition escaped :: "outcome \<Rightarrow> error option" where
  "escaped out = (case out of Settled e \<Rightarrow> None | Escaped x e \<Rightarrow> Some x)"

text \<open>The votes the voting loop has collected once it has gone through the roster.\<close>

definition collectedVotes :: "Agent list \<Rightarrow> (nat \<Rightarrow> error + VoteJson parsed) \<Rightarrow> Vote list" where
  "collectedVotes agents replies = collectVotes agents replies 0 agents []"

text \<open>The votes of the calls that returned, in roster order: call \<open>k\<close> is the call
  made for the agent at position \<open>k\<close> (counted from \<open>i\<close> for the first of \<open>rest\<close>).\<close>

definition returnedVotes ::
  "Agent list \<Rightarrow> (nat \<Rightarrow> error + VoteJson parsed) \<Rightarrow> nat \<Rightarrow> Agent list \<Rightarrow> Vote list" where
  "returnedVotes agents replies i rest =
     concat (map (\<lambda>(k, a). case castVote a agents (replies k) of Inr v \<Rightarrow> [v] | Inl e \<Rightarrow> [])
                 (enumerate i rest))"

text \<open>The debate state in which a started turn stands when its filler message has been
  appended: the thinking flag set, the usage accounted, the message added under the
  turn's message id.\<close>

definition fillerTurn :: "Agent \<Rightarrow> World \<Rightarrow> DebateState \<Rightarrow> DebateState" where
  "fillerTurn agent w state =
     addMessage state (w_uuid w 1) (w_clock w 0) (agent_id agent) ''Error generating response.''
       None None False None (Some (w_uuid w 0))
       (billed w (state\<lparr> isThinking := True, thinkingAgentId := currentTurnAgentId state \<rparr>))"

section \<open>Example data\<close>

text \<open>A roster of agents that differ in their ids, a debate state at a given place of
  the rotation, and a short transcript, for the concrete instances below.\<close>

definition agentNamed :: "string \<Rightarrow> Agent" where
  "agentNamed n =
     \<lparr> agent_id = n, agent_name = n, agent_role = REALIST, systemPrompt = ''You are a realist.'',
       avatarColor = ''bg-blue-500'', description = [], modelOverride = None \<rparr>"

definition council :: "Agent list" where
  "council = [agentNamed ''A'', agentNamed ''B'', agentNamed ''C'']"

definition debateAt :: "DebateMode \<Rightarrow> int \<Rightarrow> DebatePhase \<Rightarrow> int \<Rightarrow> string option \<Rightarrow> DebateState" where
  "debateAt md rounds ph r turn =
     INITIAL_STATE\<lparr> topic := ''Should cities ban cars?'', mode := md, maxRounds := rounds,
                    phase := ph, currentRound := r, currentTurnAgentId := turn \<rparr>"

definition said :: "string \<Rightarrow> string \<Rightarrow> string \<Rightarrow> Message" where
  "said i who body =
     \<lparr> msg_id = i, agentId = who, content = body, timestamp = 0, msg_type = TextMsg,
       citations = None, msg_phase = Some OPENING, isGuest = Some False, guestRole = None,
       fallacy = None \<rparr>"

definition strawman :: Fallacy where
  "strawman = \<lparr> fallacy_name = ''Strawman'', fallacy_reason = ''Misstates the opposing view.'',
                severity = Minor \<rparr>"

text \<open>A rate-limit error, a provider that throws it on its first \<open>n\<close> calls and
  answers afterwards, and a vote reply naming a target.\<close>

definition tooManyRequests :: ApiError where
  "tooManyRequests = \<lparr> err_status = Some 429, err_code = None,
                        err_message = Some ''Resource has been exhausted'' \<rparr>"


definition votesFor :: "string \<Rightarrow> error + VoteJson parsed" where
  "votesFor target =
     Inr (JsonObject \<lparr> vj_targetAgentId = Some target, vj_score = Some 8,
                        vj_reason = Some ''Clear and practical.'' \<rparr>)"

text \<open>A world in which every remote call returns, an engine at rest in a given debate
  state, and a web-search tool call.\<close>

definition quietWorld :: World where
  "quietWorld =
     \<lparr> w_uuid = (\<lambda>k. ''uuid''), w_clock = (\<lambda>k. 0), w_accounting = (\<lambda>u. u),
       w_voteReplies = (\<lambda>k. votesFor ''B''),
       w_verdictReply = Inr Unparseable, w_decisionReply = Inr Unparseable,
       w_turnReply = Inr \<lparr> resp_text = ''Cars are loud.'', resp_citations = None,
                            resp_toolCall = None, resp_searchQueries = 0 \<rparr>,
       w_resumeReply = Inr \<lparr> resp_text = ''Buses are not.'', resp_citations = None,
                              resp_toolCall = None, resp_searchQueries = 0 \<rparr> \<rparr>"

definition idle :: "DebateState \<Rightarrow> Engine" where
  "idle s = \<lparr> debate = s, processingRef = False, pendingToolCallRef = None \<rparr>"

definition searchCall :: ToolCall where
  "searchCall = \<lparr> tool_name = ''search_web'', tool_args = [(''query'', ''car ban emissions'')],
                  tool_id = ''call-1'' \<rparr>"

section \<open>Facts about the helpers\<close>

lemma findIndex_ge: "- 1 \<le> findIndex P xs"
  by (induction xs) (auto simp: Let_def)

lemma findIndex_lt: "findIndex P xs < int (length xs)"
  by (induction xs) (auto simp: Let_def)

lemma id_at_first: "agents \<noteq> [] \<Longrightarrow> id_at agents 0 = Inr (agent_id (hd agents))"
  by (cases agents) (simp_all add: id_at_def at_index_def)

lemma id_at_empty: "id_at [] i = Inl TypeError"
  by (simp add: id_at_def at_index_def)

lemma advanceTurn_total: "agents \<noteq> [] \<Longrightarrow> \<exists>s'. advanceTurn agents s = Inr s'"
  using findIndex_ge[of "\<lambda>a. Some (agent_id a) = currentTurnAgentId s" agents]
        findIndex_lt[of "\<lambda>a. Some (agent_id a) = currentTurnAgentId s" agents]
  by (auto simp: advanceTurn_def finishTurn_def id_at_def at_index_def Let_def)

section \<open>Which branch a step takes\<close>

text \<open>\<open>runDebateStep\<close> with no step in progress, no pending question and no
  consultation prompt: the voting pass in phase VOTING without a verdict, the
  orchestrator's decision on its sentinel, and otherwise, for a named turn before the
  verdict, the resumption of a pending tool call or the start of the turn.\<close>

lemma runDebateStep_votes:
  assumes "\<not> processingRef eng" "\<not> truthy (pendingUserQuestion (debate eng))"
    "\<not> showConsultationPrompt (debate eng)"
    "phase (debate eng) = VOTING" "\<not> isThinking (debate eng)" "finalVerdict (debate eng) = None"
  shows "runDebateStep agents w eng = votingStep agents w eng"
  using assms by (simp add: runDebateStep_def)

lemma runDebateStep_orchestrates:
  assumes "\<not> processingRef eng" "\<not> truthy (pendingUserQuestion (debate eng))"
    "\<not> showConsultationPrompt (debate eng)"
    "phase (debate eng) \<noteq> VOTING" "currentTurnAgentId (debate eng) = Some ''ORCHESTRATOR''"
  shows "runDebateStep agents w eng = orchestratorStep agents w eng"
  using assms by (simp add: runDebateStep_def)

lemma runDebateStep_starts:
  assumes "\<not> processingRef eng" "\<not> truthy (pendingUserQuestion (debate eng))"
    "\<not> showConsultationPrompt (debate eng)"
    "phase (debate eng) \<noteq> VOTING" "phase (debate eng) \<noteq> VERDICT"
    "truthy (currentTurnAgentId (debate eng))"
    "currentTurnAgentId (debate eng) \<noteq> Some ''ORCHESTRATOR''" "\<not> isThinking (debate eng)"
  shows "runDebateStep agents w eng = startStep agents w eng"
  using assms by (simp add: runDebateStep_def)

lemma runDebateStep_resumes:
  assumes "\<not> processingRef eng" "\<not> truthy (pendingUserQuestion (debate eng))"
    "\<not> showConsultationPrompt (debate eng)"
    "phase (debate eng) \<noteq> VOTING" "phase (debate eng) \<noteq> VERDICT"
    "truthy (currentTurnAgentId (debate eng))"
    "currentTurnAgentId (debate eng) \<noteq> Some ''ORCHESTRATOR''" "isThinking (debate eng)"
    "pendingToolCallRef eng \<noteq> None"
  shows "runDebateStep agents w eng = resumeStep agents w eng"
  using assms by (auto simp add: runDebateStep_def Let_def)

section \<open>The stop request\<close>

text \<open>
  Claim C2, as amended. In every debate state whose stop-requested flag is set, the
  turn-rotation boundary \<open>advanceTurn\<close> returns the state with phase VOTING and no
  active turn, whatever the phase, the round, the agent and the roster; in particular
  the boundary executed after \<open>handleStop\<close> does so. \<open>handleStop\<close> itself only sets
  the flag and appends its notice to the transcript: phase, turn and the thinking flag
  are left as they are, and no step is cancelled. A turn that is generated while the
  flag is set is not interrupted: when its call returns text, the step appends the
  agent's message and only then, at the boundary, moves to VOTING. The boundary is
  not the only reader of the flag: the orchestrator branch reads it as well, after its
  decision call has returned, and then moves to VOTING with no active turn whatever
  the decision says. When the decision call fails, the branch continues the debate at
  REBUTTAL with the first agent, the flag set or not.
\<close>

theorem stop_request_honoured_at_boundary:
  "(userRequestedStop s \<longrightarrow>
      advanceTurn agents s =
        Inr (s\<lparr> currentTurnAgentId := None, phase := VOTING, isThinking := False \<rparr>))
   \<and> (\<exists>s'. advanceTurn agents (handleStop rendered uuid now s) = Inr s'
          \<and> phase s' = VOTING \<and> currentTurnAgentId s' = None)
   \<and> handleStop rendered uuid now s =
        s\<lparr> transcript := transcript (handleStop rendered uuid now s), userRequestedStop := True \<rparr>
   \<and> butlast (transcript (handleStop rendered uuid now s)) = transcript s
   \<and> (find (\<lambda>a. Some (agent_id a) = currentTurnAgentId (debate eng)) agents = Some agent
        \<and> userRequestedStop (debate eng) \<and> w_turnReply w = Inr r \<and> resp_toolCall r = None
      \<longrightarrow> escaped (startStep agents w eng) = None
          \<and> phase (debate (engine_of (startStep agents w eng))) = VOTING
          \<and> currentTurnAgentId (debate (engine_of (startStep agents w eng))) = None
          \<and> map content (transcript (debate (engine_of (startStep agents w eng))))
              = map content (transcript (debate eng))
                @ [or_string (Some (resp_text r)) ''I have no further comments.''])
   \<and> (userRequestedStop (debate eng) \<and> w_decisionReply w = Inr p \<and> p \<noteq> JsonNull
      \<longrightarrow> escaped (orchestratorStep agents w eng) = None
          \<and> phase (debate (engine_of (orchestratorStep agents w eng))) = VOTING
          \<and> currentTurnAgentId (debate (engine_of (orchestratorStep agents w eng))) = None)
   \<and> (agents \<noteq> [] \<and> w_decisionReply w = Inl e
      \<longrightarrow> orchestratorStep agents w eng =
            Settled (eng\<lparr> debate := (debate eng)\<lparr> isThinking := False,
                              currentTurnAgentId := Some (agent_id (hd agents)),
                              phase := REBUTTAL \<rparr>,
                          processingRef := False \<rparr>))"
proof -
  have failed: "orchestratorStep agents w eng =
            Settled (eng\<lparr> debate := (debate eng)\<lparr> isThinking := False,
                              currentTurnAgentId := Some (agent_id (hd agents)),
                              phase := REBUTTAL \<rparr>,
                          processingRef := False \<rparr>)"
    if "agents \<noteq> []" "w_decisionReply w = Inl e"
    using that
    by (simp add: orchestratorStep_def orchestratorDecide_def Let_def restartAtFirst_def id_at_first)
  have boundary: "(userRequestedStop s \<longrightarrow>
      advanceTurn agents s =
        Inr (s\<lparr> currentTurnAgentId := None, phase := VOTING, isThinking := False \<rparr>))
   \<and> (\<exists>s'. advanceTurn agents (handleStop rendered uuid now s) = Inr s'
          \<and> phase s' = VOTING \<and> currentTurnAgentId s' = None)
   \<and> handleStop rendered uuid now s =
        s\<lparr> transcript := transcript (handleStop rendered uuid now s), userRequestedStop := True \<rparr>
   \<and> butlast (transcript (handleStop rendered uuid now s)) = transcript s"
    by (simp add: advanceTurn_def handleStop_def addMessage_def)
  have turn: "escaped (startStep agents w eng) = None
          \<and> phase (debate (engine_of (startStep agents w eng))) = VOTING
          \<and> currentTurnAgentId (debate (engine_of (startStep agents w eng))) = None
          \<and> map content (transcript (debate (engine_of (startStep agents w eng))))
              = map content (transcript (debate eng))
                @ [or_string (Some (resp_text r)) ''I have no further comments.'']"
    if "find (\<lambda>a. Some (agent_id a) = currentTurnAgentId (debate eng)) agents = Some agent"
      "userRequestedStop (debate eng)" "w_turnReply w = Inr r" "resp_toolCall r = None"
    using that
    by (simp add: startStep_def generateAgentTurn_def rotate_def advanceTurn_def addMessage_def
          billed_def escaped_def engine_of_def Let_def)
  have orch: "escaped (orchestratorStep agents w eng) = None
          \<and> phase (debate (engine_of (orchestratorStep agents w eng))) = VOTING
          \<and> currentTurnAgentId (debate (engine_of (orchestratorStep agents w eng))) = None"
    if "userRequestedStop (debate eng)" "w_decisionReply w = Inr p" "p \<noteq> JsonNull"
    using that
    by (cases p) (simp_all add: orchestratorStep_def orchestratorDecide_def Let_def escaped_def
          engine_of_def addMessage_def billed_def)
  from boundary turn orch failed show ?thesis by blast
qed

theorem stop_request_honoured_at_boundary_witness:
  "userRequestedStop ((debateAt AUTO 2 REBUTTAL 1 (Some ''A''))\<lparr> userRequestedStop := True \<rparr>)
   \<and> advanceTurn council ((debateAt AUTO 2 REBUTTAL 1 (Some ''A''))\<lparr> userRequestedStop := True \<rparr>) =
       Inr ((debateAt AUTO 2 REBUTTAL 1 (Some ''A''))
              \<lparr> userRequestedStop := True, currentTurnAgentId := None, phase := VOTING,
                isThinking := False \<rparr>)
   \<and> phase (debate (engine_of (startStep council quietWorld
        (idle ((debateAt AUTO 2 REBUTTAL 1 (Some ''A''))\<lparr> userRequestedStop := True \<rparr>))))) = VOTING
   \<and> map content (transcript (debate (engine_of (startStep council quietWorld
        (idle ((debateAt AUTO 2 REBUTTAL 1 (Some ''A''))\<lparr> userRequestedStop := True \<rparr>))))))
       = [''Cars are loud.'']"
proof -
  let ?s = "(debateAt AUTO 2 REBUTTAL 1 (Some ''A''))\<lparr> userRequestedStop := True \<rparr>"
  let ?r = "\<lparr> resp_text = ''Cars are loud.'', resp_citations = None, resp_toolCall = None,
             resp_searchQueries = 0 \<rparr>"
  have flag: "userRequestedStop ?s" by simp
  have found: "find (\<lambda>a. Some (agent_id a) = currentTurnAgentId (debate (idle ?s))) council
                 = Some (agentNamed ''A'')"
    by (simp add: idle_def debateAt_def council_def agentNamed_def)
  have more: "userRequestedStop (debate (idle ?s))" "w_turnReply quietWorld = Inr ?r"
    "resp_toolCall ?r = None" "transcript (debate (idle ?s)) = []"
    by (simp_all add: idle_def quietWorld_def debateAt_def INITIAL_STATE_def)
  note inst = stop_request_honoured_at_boundary
               [of ?s council ?s "''uuid''" 0 "idle ?s" "agentNamed ''A''" quietWorld ?r Unparseable]
  from inst flag
  have one: "advanceTurn council ?s =
       Inr ((debateAt AUTO 2 REBUTTAL 1 (Some ''A''))
              \<lparr> userRequestedStop := True, currentTurnAgentId := None, phase := VOTING,
                isThinking := False \<rparr>)"
    by simp
  from inst found more
  have two: "phase (debate (engine_of (startStep council quietWorld (idle ?s)))) = VOTING"
    and three: "map content (transcript (debate (engine_of (startStep council quietWorld (idle ?s)))))
       = [''Cars are loud.'']"
    by (simp_all add: or_string_def)
  from flag one two three show ?thesis by simp
qed

text \<open>The claim as the specification states it fails in its last part: the boundary
  is not executed in the orchestrator branch, and yet the same reply of the decision
  call ends the debate when the flag is set and continues it when the flag is clear.
  If that branch is counted as an execution of the boundary, the first part fails
  instead: with the flag set and a decision call that fails, the phase becomes
  REBUTTAL.\<close>

theorem orchestrator_branch_reads_stop_flag:
  "runDebateStep council quietWorld
       (idle ((debateAt AUTO 2 SYNTHESIS 1 (Some ''ORCHESTRATOR''))\<lparr> userRequestedStop := True \<rparr>))
     = Settled (idle
         ((debateAt AUTO 2 SYNTHESIS 1 (Some ''ORCHESTRATOR''))
            \<lparr> userRequestedStop := True, currentTurnAgentId := None, phase := VOTING,
              transcript := [(said ''uuid'' ''system'' ''Chairperson Concluding: Continue the debate.'')
                               \<lparr> msg_phase := Some SYNTHESIS \<rparr>] \<rparr>))
   \<and> runDebateStep council quietWorld (idle (debateAt AUTO 2 SYNTHESIS 1 (Some ''ORCHESTRATOR'')))
     = Settled (idle
         ((debateAt AUTO 2 SYNTHESIS 1 (Some ''ORCHESTRATOR''))
            \<lparr> currentTurnAgentId := Some ''A'', phase := REBUTTAL, currentRound := 2,
              transcript := [(said ''uuid'' ''agent-chairperson'' ''Continue the debate.'')
                               \<lparr> msg_phase := Some SYNTHESIS \<rparr>] \<rparr>))
   \<and> runDebateStep council (quietWorld\<lparr> w_decisionReply := Inl (ProviderError tooManyRequests) \<rparr>)
       (idle ((debateAt AUTO 2 SYNTHESIS 1 (Some ''ORCHESTRATOR''))\<lparr> userRequestedStop := True \<rparr>))
     = Settled (idle
         ((debateAt AUTO 2 SYNTHESIS 1 (Some ''ORCHESTRATOR''))
            \<lparr> userRequestedStop := True, currentTurnAgentId := Some ''A'', phase := REBUTTAL \<rparr>))"
  by (simp add: runDebateStep_def orchestratorStep_def orchestratorDecide_def restartAtFirst_def
        addMessage_def billed_def or_string_def said_def
        idle_def debateAt_def INITIAL_STATE_def quietWorld_def council_def agentNamed_def
        id_at_def at_index_def truthy_def Let_def)

section \<open>Attaching a fallacy finding\<close>

text \<open>
  Claim C8. Attaching a fallacy finding to a message id that no message of the
  transcript has returns the state unchanged. In every case only the transcript field
  of the state changes, the transcript keeps its length and order, and each message is
  either the message it was, or, when its id is the given one, that message with its
  fallacy field set and all its other fields as they were.
\<close>

theorem updateMessageFallacy_frame:
  "(msgId \<notin> msg_id ` set (transcript s) \<longrightarrow> updateMessageFallacy msgId f s = s)
   \<and> updateMessageFallacy msgId f s = s\<lparr> transcript := transcript (updateMessageFallacy msgId f s) \<rparr>
   \<and> length (transcript (updateMessageFallacy msgId f s)) = length (transcript s)
   \<and> (\<forall>i < length (transcript s).
         transcript (updateMessageFallacy msgId f s) ! i =
           (if msg_id (transcript s ! i) = msgId
            then (transcript s ! i)\<lparr> fallacy := Some f \<rparr>
            else transcript s ! i))"
proof -
  have "msgId \<notin> msg_id ` set ms \<Longrightarrow>
        map (\<lambda>m. if msg_id m = msgId then m\<lparr> fallacy := Some f \<rparr> else m) ms = ms"
    for ms :: "Message list"
    by (induction ms) auto
  then show ?thesis by (simp add: updateMessageFallacy_def)
qed

theorem updateMessageFallacy_frame_witness:
  "''m9'' \<notin> msg_id ` set (transcript
       ((debateAt FIXED 2 REBUTTAL 1 (Some ''B''))
          \<lparr> transcript := [said ''m1'' ''A'' ''Cars pollute.'', said ''m2'' ''B'' ''Buses too.''] \<rparr>))
   \<and> updateMessageFallacy ''m9'' strawman
       ((debateAt FIXED 2 REBUTTAL 1 (Some ''B''))
          \<lparr> transcript := [said ''m1'' ''A'' ''Cars pollute.'', said ''m2'' ''B'' ''Buses too.''] \<rparr>)
     = (debateAt FIXED 2 REBUTTAL 1 (Some ''B''))
          \<lparr> transcript := [said ''m1'' ''A'' ''Cars pollute.'', said ''m2'' ''B'' ''Buses too.''] \<rparr>
   \<and> transcript (updateMessageFallacy ''m2'' strawman
       ((debateAt FIXED 2 REBUTTAL 1 (Some ''B''))
          \<lparr> transcript := [said ''m1'' ''A'' ''Cars pollute.'', said ''m2'' ''B'' ''Buses too.''] \<rparr>)) ! 1
     = (said ''m2'' ''B'' ''Buses too.'')\<lparr> fallacy := Some strawman \<rparr>"
  using updateMessageFallacy_frame
          [of "''m9''" "(debateAt FIXED 2 REBUTTAL 1 (Some ''B''))
             \<lparr> transcript := [said ''m1'' ''A'' ''Cars pollute.'', said ''m2'' ''B'' ''Buses too.''] \<rparr>"
              strawman]
        updateMessageFallacy_frame
          [of "''m2''" "(debateAt FIXED 2 REBUTTAL 1 (Some ''B''))
             \<lparr> transcript := [said ''m1'' ''A'' ''Cars pollute.'', said ''m2'' ''B'' ''Buses too.''] \<rparr>"
              strawman]
  by (simp add: said_def)

section \<open>Forcing a phase\<close>

text \<open>
  Claim C10. \<open>handleDirectorForcePhase\<close> always resets the stop-requested flag:
  whenever it returns a state (it does for a roster that is not empty, and for VOTING
  with any roster), that state has the forced phase and \<open>userRequestedStop = false\<close>,
  also when a stop request was pending in the state it was applied to.
\<close>

theorem force_phase_clears_stop:
  "(agents \<noteq> [] \<or> ph = VOTING \<longrightarrow>
      (\<exists>s'. handleDirectorForcePhase agents ph s = Inr s' \<and> \<not> userRequestedStop s' \<and> phase s' = ph))
   \<and> (\<forall>s'. handleDirectorForcePhase agents ph s = Inr s' \<longrightarrow> \<not> userRequestedStop s')"
proof (cases "agents = []")
  case True
  then show ?thesis by (simp add: handleDirectorForcePhase_def id_at_empty)
next
  case False
  then show ?thesis by (auto simp add: handleDirectorForcePhase_def id_at_first)
qed

theorem force_phase_clears_stop_witness:
  "council \<noteq> []
   \<and> userRequestedStop ((debateAt FIXED 2 REBUTTAL 1 (Some ''B''))\<lparr> userRequestedStop := True \<rparr>)
   \<and> handleDirectorForcePhase council SYNTHESIS
        ((debateAt FIXED 2 REBUTTAL 1 (Some ''B''))\<lparr> userRequestedStop := True \<rparr>)
       = Inr (debateAt FIXED 2 SYNTHESIS 1 (Some ''A''))
   \<and> \<not> userRequestedStop (debateAt FIXED 2 SYNTHESIS 1 (Some ''A''))
   \<and> advanceTurn council (debateAt FIXED 2 SYNTHESIS 1 (Some ''A''))
       = Inr (debateAt FIXED 2 SYNTHESIS 1 (Some ''B''))"
proof -
  let ?s = "(debateAt FIXED 2 REBUTTAL 1 (Some ''B''))\<lparr> userRequestedStop := True \<rparr>"
  have ne: "council \<noteq> []" by (simp add: council_def)
  have forced: "handleDirectorForcePhase council SYNTHESIS ?s
                  = Inr (debateAt FIXED 2 SYNTHESIS 1 (Some ''A''))"
    by (simp add: handleDirectorForcePhase_def id_at_def at_index_def council_def agentNamed_def
          debateAt_def INITIAL_STATE_def)
  from force_phase_clears_stop[of council SYNTHESIS ?s] forced
  have cleared: "\<not> userRequestedStop (debateAt FIXED 2 SYNTHESIS 1 (Some ''A''))" by simp
  have nxt: "advanceTurn council (debateAt FIXED 2 SYNTHESIS 1 (Some ''A''))
       = Inr (debateAt FIXED 2 SYNTHESIS 1 (Some ''B''))"
    by (simp add: advanceTurn_def finishTurn_def id_at_def at_index_def council_def agentNamed_def
          debateAt_def INITIAL_STATE_def)
  from ne forced cleared nxt show ?thesis by simp
qed

section \<open>Casting a vote\<close>

text \<open>
  Claim C9. When no agent of the supplied roster has an id other than the voter's,
  so that the candidate list is empty, \<open>castVote\<close> raises an error and returns no
  vote: the provider's error if the call failed, and otherwise the \<open>TypeError\<close> of
  reading \<open>candidates[0].id\<close> for the default vote. So whenever \<open>castVote\<close> returns a
  vote, the roster holds an agent other than the voter.
\<close>

theorem castVote_needs_candidate:
  "(filter (\<lambda>a. agent_id a \<noteq> agent_id agent) otherAgents = [] \<longrightarrow>
      (\<exists>e. castVote agent otherAgents reply = Inl e)
      \<and> castVote agent otherAgents (Inr p) = Inl TypeError)
   \<and> (\<forall>v. castVote agent otherAgents reply = Inr v \<longrightarrow>
          (\<exists>c \<in> set otherAgents. agent_id c \<noteq> agent_id agent))"
proof -
  have a: "castVote agent otherAgents r = Inl (case r of Inl e \<Rightarrow> e | Inr p \<Rightarrow> TypeError)"
    if "filter (\<lambda>a. agent_id a \<noteq> agent_id agent) otherAgents = []" for r
    using that by (simp add: castVote_def id_at_empty split: sum.splits)
  have c: "\<exists>c \<in> set otherAgents. agent_id c \<noteq> agent_id agent"
    if "filter (\<lambda>a. agent_id a \<noteq> agent_id agent) otherAgents \<noteq> []"
    using that by (induction otherAgents) (auto split: if_splits)
  have b: "\<exists>c \<in> set otherAgents. agent_id c \<noteq> agent_id agent"
    if "castVote agent otherAgents reply = Inr v" for v
  proof (rule c, rule notI)
    assume "filter (\<lambda>a. agent_id a \<noteq> agent_id agent) otherAgents = []"
    from a[OF this, of reply] that show False by simp
  qed
  show ?thesis using a[of reply] a[of "Inr p"] b by auto
qed

theorem castVote_needs_candidate_witness:
  "filter (\<lambda>a. agent_id a \<noteq> agent_id (agentNamed ''A'')) [agentNamed ''A''] = []
   \<and> castVote (agentNamed ''A'') [agentNamed ''A'']
        (Inr (JsonObject \<lparr> vj_targetAgentId = Some ''A'', vj_score = Some 9,
                            vj_reason = Some ''Best case.'' \<rparr>)) = Inl TypeError"
  using castVote_needs_candidate
          [of "agentNamed ''A''" "[agentNamed ''A'']" "Inl TypeError"
              "JsonObject \<lparr> vj_targetAgentId = Some ''A'', vj_score = Some 9,
                             vj_reason = Some ''Best case.'' \<rparr>"]
  by simp

section \<open>Retry with backoff\<close>





section \<open>The voting pass\<close>

lemma returnedVotes_Nil: "returnedVotes agents replies i [] = []"
  by (simp add: returnedVotes_def)

lemma returnedVotes_Cons:
  "returnedVotes agents replies i (a # rest) =
     (case castVote a agents (replies i) of Inr v \<Rightarrow> [v] | Inl e \<Rightarrow> [])
     @ returnedVotes agents replies (Suc i) rest"
  by (simp add: returnedVotes_def)

lemma collectVotes_returned:
  "collectVotes agents replies i rest vs = vs @ returnedVotes agents replies i rest"
  by (induction rest arbitrary: i vs)
     (simp_all add: returnedVotes_Nil returnedVotes_Cons split: sum.splits)

lemma returnedVotes_length: "length (returnedVotes agents replies i rest) \<le> length rest"
proof (induction rest arbitrary: i)
  case Nil
  show ?case by (simp add: returnedVotes_Nil)
next
  case (Cons a rest)
  from Cons.IH[of "Suc i"] show ?case
    by (simp add: returnedVotes_Cons split: sum.splits)
qed

lemma returnedVotes_member:
  "v \<in> set (returnedVotes agents replies i rest) \<Longrightarrow>
   \<exists>k < length rest. castVote (rest ! k) agents (replies (i + k)) = Inr v"
proof (induction rest arbitrary: i)
  case Nil
  then show ?case by (simp add: returnedVotes_Nil)
next
  case (Cons a rest)
  from Cons.prems
  have "castVote a agents (replies i) = Inr v \<or> v \<in> set (returnedVotes agents replies (Suc i) rest)"
    by (auto simp: returnedVotes_Cons split: sum.splits)
  then show ?case
  proof
    assume "castVote a agents (replies i) = Inr v"
    then have "castVote ((a # rest) ! 0) agents (replies (i + 0)) = Inr v" by simp
    then show ?thesis by blast
  next
    assume "v \<in> set (returnedVotes agents replies (Suc i) rest)"
    from Cons.IH[OF this] obtain k where "k < length rest"
      "castVote (rest ! k) agents (replies (Suc i + k)) = Inr v" by blast
    then have "Suc k < length (a # rest)"
      "castVote ((a # rest) ! Suc k) agents (replies (i + Suc k)) = Inr v" by simp_all
    then show ?thesis by blast
  qed
qed

lemma collectedVotes_member:
  "v \<in> set (collectedVotes agents replies) \<Longrightarrow>
   \<exists>k < length agents. castVote (agents ! k) agents (replies k) = Inr v"
  using returnedVotes_member[of v agents replies 0 agents]
  by (simp add: collectedVotes_def collectVotes_returned)

lemma castVote_voter: "castVote a agents r = Inr v \<Longrightarrow> voterId v = agent_id a"
  by (auto simp: castVote_def Let_def split: sum.splits parsed.splits)

lemma hd_filter_mem: "filter P xs \<noteq> [] \<Longrightarrow> hd (filter P xs) \<in> set xs"
  by (metis filter_is_subset hd_in_set subsetD)

lemma castVote_target:
  assumes cv: "castVote a agents r = Inr v"
  shows "targetAgentId v \<in> agent_id ` set agents
         \<or> (\<exists>json. r = Inr (JsonObject json) \<and> vj_targetAgentId json = Some (targetAgentId v))"
proof -
  let ?cs = "filter (\<lambda>c. agent_id c \<noteq> agent_id a) agents"
  have ne: "?cs \<noteq> []"
  proof
    assume "?cs = []"
    with cv show False by (simp add: castVote_def id_at_empty split: sum.splits)
  qed
  then have first: "id_at ?cs 0 = Inr (agent_id (hd ?cs))"
    by (rule id_at_first)
  have mem: "agent_id (hd ?cs) \<in> agent_id ` set agents"
    using hd_filter_mem[OF ne] by blast
  from cv first mem show ?thesis
    by (auto simp: castVote_def or_string_def split: sum.splits parsed.splits option.splits if_splits)
qed

text \<open>
  Claim C3, as amended. The collected vote set never has more votes than the roster
  has agents: after any number \<open>n\<close> of iterations of the voting loop it holds at most
  \<open>n\<close> votes, and at most \<open>agents.length\<close> at the end. Every vote in it has the id of a
  roster agent as its \<open>voterId\<close>. Its \<open>targetAgentId\<close> is the id of a roster agent, or
  it is the \<open>targetAgentId\<close> string of a provider reply, which the code takes as it
  comes. The vote list a verdict stores in the debate state is this collected list.
\<close>

theorem votes_bounded_voters_in_roster:
  "length (collectedVotes agents replies) \<le> length agents
   \<and> (\<forall>n. length (collectVotes agents replies 0 (take n agents) []) \<le> n)
   \<and> (\<forall>v \<in> set (collectedVotes agents replies).
         voterId v \<in> agent_id ` set agents
         \<and> (targetAgentId v \<in> agent_id ` set agents
            \<or> (\<exists>k json. replies k = Inr (JsonObject json)
                  \<and> vj_targetAgentId json = Some (targetAgentId v))))
   \<and> (finalVerdict (debate eng) = None \<longrightarrow>
        (\<forall>verdict. finalVerdict (debate (engine_of (votingStep agents w eng))) = Some verdict
           \<longrightarrow> votes verdict = collectedVotes agents (w_voteReplies w)))"
proof -
  have stored: "votes verdict = collectedVotes agents (w_voteReplies w)"
    if none: "finalVerdict (debate eng) = None"
      and some: "finalVerdict (debate (engine_of (votingStep agents w eng))) = Some verdict"
    for verdict
  proof (cases "generateFinalVerdict (collectedVotes agents (w_voteReplies w)) agents (w_verdictReply w)")
    case (Inl x)
    with none some show ?thesis
      by (simp add: votingStep_def collectedVotes_def engine_of_def billed_def Let_def)
  next
    case (Inr v)
    then have "votes v = collectedVotes agents (w_voteReplies w)"
      by (auto simp: generateFinalVerdict_def Let_def
            split: sum.splits parsed.splits option.splits if_splits)
    moreover from Inr some have "verdict = v"
      by (simp add: votingStep_def collectedVotes_def engine_of_def Let_def)
    ultimately show ?thesis by simp
  qed
  have total: "length (collectedVotes agents replies) \<le> length agents"
    using returnedVotes_length[of agents replies 0 agents]
    by (simp add: collectedVotes_def collectVotes_returned)
  have sofar: "length (collectVotes agents replies 0 (take n agents) []) \<le> n" for n
    using returnedVotes_length[of agents replies 0 "take n agents"]
    by (simp add: collectVotes_returned)
  have each: "voterId v \<in> agent_id ` set agents
         \<and> (targetAgentId v \<in> agent_id ` set agents
            \<or> (\<exists>k json. replies k = Inr (JsonObject json)
                  \<and> vj_targetAgentId json = Some (targetAgentId v)))"
    if "v \<in> set (collectedVotes agents replies)" for v
  proof -
    from collectedVotes_member[OF that] obtain k
      where k: "k < length agents" and cv: "castVote (agents ! k) agents (replies k) = Inr v"
      by blast
    from castVote_voter[OF cv] k have "voterId v \<in> agent_id ` set agents" by simp
    moreover from castVote_target[OF cv]
    have "targetAgentId v \<in> agent_id ` set agents
          \<or> (\<exists>k json. replies k = Inr (JsonObject json)
                \<and> vj_targetAgentId json = Some (targetAgentId v))"
      by blast
    ultimately show ?thesis by blast
  qed
  from total sofar each stored show ?thesis by blast
qed

theorem votes_bounded_voters_in_roster_witness:
  "length (collectedVotes council (\<lambda>k. votesFor ''B'')) \<le> length council
   \<and> map voterId (collectedVotes council (\<lambda>k. votesFor ''B'')) = [''A'', ''B'', ''C'']
   \<and> map targetAgentId (collectedVotes council (\<lambda>k. votesFor ''B'')) = [''B'', ''B'', ''B'']"
  using votes_bounded_voters_in_roster[of council "\<lambda>k. votesFor ''B''"]
  by (simp add: collectedVotes_def council_def agentNamed_def votesFor_def castVote_def
        id_at_def at_index_def or_string_def or_number_def)

text \<open>The claim as the specification states it fails: every agent of the example
  roster votes, and the provider names a target, \<open>Zed\<close>, that is no agent's id.\<close>

theorem vote_target_outside_roster:
  "\<not> (\<forall>v \<in> set (collectedVotes council (\<lambda>k. votesFor ''Zed'')).
         voterId v \<in> agent_id ` set council \<and> targetAgentId v \<in> agent_id ` set council)"
  by (simp add: collectedVotes_def council_def agentNamed_def votesFor_def castVote_def
        id_at_def at_index_def or_string_def or_number_def)

text \<open>
  Claim C7. The votes collected are exactly the votes of the calls that returned, in
  roster order: a call that fails adds nothing and the loop goes on to the next agent.
  Every collected vote is the vote returned for one agent of the roster and carries
  that agent's id as voter; with distinct agent ids, no collected vote carries the id
  of an agent whose call failed. The verdict call then runs on this vote list: for a
  roster that is not empty, every reply of the verdict call that returns (and is not
  \<open>null\<close>) gives a verdict that holds exactly the collected votes, and the step stores
  it and moves the phase to VERDICT.
\<close>

theorem failed_vote_is_omitted:
  "collectedVotes agents replies = returnedVotes agents replies 0 agents
   \<and> (\<forall>v \<in> set (collectedVotes agents replies).
         \<exists>k < length agents. castVote (agents ! k) agents (replies k) = Inr v
                               \<and> voterId v = agent_id (agents ! k))
   \<and> (distinct (map agent_id agents) \<and> j < length agents
        \<and> castVote (agents ! j) agents (replies j) = Inl e
      \<longrightarrow> (\<forall>v \<in> set (collectedVotes agents replies). voterId v \<noteq> agent_id (agents ! j)))
   \<and> (\<forall>verdict.
         generateFinalVerdict (collectedVotes agents (w_voteReplies w)) agents (w_verdictReply w)
           = Inr verdict
         \<longrightarrow> votes verdict = collectedVotes agents (w_voteReplies w)
             \<and> finalVerdict (debate (engine_of (votingStep agents w eng))) = Some verdict
             \<and> phase (debate (engine_of (votingStep agents w eng))) = VERDICT)
   \<and> (agents \<noteq> [] \<and> w_verdictReply w = Inr p \<and> p \<noteq> JsonNull
      \<longrightarrow> (\<exists>verdict.
             generateFinalVerdict (collectedVotes agents (w_voteReplies w)) agents (w_verdictReply w)
               = Inr verdict
             \<and> votes verdict = collectedVotes agents (w_voteReplies w)
             \<and> votingStep agents w eng =
                 Settled (eng\<lparr> debate := (billed w ((debate eng)\<lparr> isThinking := True \<rparr>))
                                   \<lparr> phase := VERDICT, isThinking := False,
                                     finalVerdict := Some verdict \<rparr>,
                               processingRef := False \<rparr>)))"
proof -
  have runs: "\<exists>verdict.
             generateFinalVerdict (collectedVotes agents (w_voteReplies w)) agents (w_verdictReply w)
               = Inr verdict
             \<and> votes verdict = collectedVotes agents (w_voteReplies w)
             \<and> votingStep agents w eng =
                 Settled (eng\<lparr> debate := (billed w ((debate eng)\<lparr> isThinking := True \<rparr>))
                                   \<lparr> phase := VERDICT, isThinking := False,
                                     finalVerdict := Some verdict \<rparr>,
                               processingRef := False \<rparr>)"
    if ne: "agents \<noteq> []" and reply: "w_verdictReply w = Inr p" and p: "p \<noteq> JsonNull"
  proof -
    from reply p id_at_first[OF ne]
    have "\<exists>verdict.
            generateFinalVerdict (collectedVotes agents (w_voteReplies w)) agents (w_verdictReply w)
              = Inr verdict
            \<and> votes verdict = collectedVotes agents (w_voteReplies w)"
      by (cases p) (simp_all add: generateFinalVerdict_def Let_def split: option.splits)
    then obtain verdict
      where v: "generateFinalVerdict (collectedVotes agents (w_voteReplies w)) agents (w_verdictReply w)
                  = Inr verdict"
        "votes verdict = collectedVotes agents (w_voteReplies w)"
      by blast
    from v(1) have "votingStep agents w eng =
                 Settled (eng\<lparr> debate := (billed w ((debate eng)\<lparr> isThinking := True \<rparr>))
                                   \<lparr> phase := VERDICT, isThinking := False,
                                     finalVerdict := Some verdict \<rparr>,
                               processingRef := False \<rparr>)"
      by (simp add: votingStep_def collectedVotes_def Let_def)
    with v show ?thesis by blast
  qed
  have shape: "collectedVotes agents replies = returnedVotes agents replies 0 agents"
    by (simp add: collectedVotes_def collectVotes_returned)
  have origin: "\<exists>k < length agents. castVote (agents ! k) agents (replies k) = Inr v
                               \<and> voterId v = agent_id (agents ! k)"
    if "v \<in> set (collectedVotes agents replies)" for v
    using collectedVotes_member[OF that] castVote_voter by blast
  have omitted: "voterId v \<noteq> agent_id (agents ! j)"
    if d: "distinct (map agent_id agents)" and j: "j < length agents"
      and fails: "castVote (agents ! j) agents (replies j) = Inl e"
      and v: "v \<in> set (collectedVotes agents replies)" for v
  proof
    assume same: "voterId v = agent_id (agents ! j)"
    from origin[OF v] obtain k where k: "k < length agents"
      and cv: "castVote (agents ! k) agents (replies k) = Inr v"
      and vk: "voterId v = agent_id (agents ! k)" by blast
    from same vk k j have "map agent_id agents ! k = map agent_id agents ! j" by simp
    moreover from k j have "k < length (map agent_id agents)" "j < length (map agent_id agents)"
      by simp_all
    ultimately have "k = j" using d by (simp only: nth_eq_iff_index_eq)
    with cv fails show False by simp
  qed
  have verdict: "votes verdict = collectedVotes agents (w_voteReplies w)
             \<and> finalVerdict (debate (engine_of (votingStep agents w eng))) = Some verdict
             \<and> phase (debate (engine_of (votingStep agents w eng))) = VERDICT"
    if ok: "generateFinalVerdict (collectedVotes agents (w_voteReplies w)) agents (w_verdictReply w)
           = Inr verdict" for verdict
  proof -
    from ok have "votes verdict = collectedVotes agents (w_voteReplies w)"
      by (auto simp: generateFinalVerdict_def Let_def
            split: sum.splits parsed.splits option.splits if_splits)
    moreover from ok
    have "finalVerdict (debate (engine_of (votingStep agents w eng))) = Some verdict
          \<and> phase (debate (engine_of (votingStep agents w eng))) = VERDICT"
      by (simp add: votingStep_def collectedVotes_def engine_of_def Let_def)
    ultimately show ?thesis by blast
  qed
  from shape origin omitted verdict runs show ?thesis by blast
qed

theorem failed_vote_is_omitted_witness:
  "distinct (map agent_id council) \<and> (1::nat) < length council
   \<and> castVote (council ! 1) council
        ((\<lambda>k::nat. if k = 1 then Inl (ProviderError tooManyRequests) else votesFor ''B'') 1)
       = Inl (ProviderError tooManyRequests)
   \<and> map voterId (collectedVotes council
        (\<lambda>k. if k = 1 then Inl (ProviderError tooManyRequests) else votesFor ''B''))
       = [''A'', ''C'']
   \<and> ''B'' \<notin> voterId ` set (collectedVotes council
        (\<lambda>k. if k = 1 then Inl (ProviderError tooManyRequests) else votesFor ''B''))
   \<and> (\<exists>verdict.
         runDebateStep council
           (quietWorld\<lparr> w_voteReplies :=
              (\<lambda>k. if k = 1 then Inl (ProviderError tooManyRequests) else votesFor ''B'') \<rparr>)
           (idle (debateAt FIXED 2 VOTING 2 None))
         = Settled (idle ((debateAt FIXED 2 VOTING 2 None)
                            \<lparr> phase := VERDICT, finalVerdict := Some verdict \<rparr>))
         \<and> winnerId verdict = ''A'' \<and> summary verdict = ''Debate concluded.''
         \<and> map voterId (votes verdict) = [''A'', ''C''])"
proof -
  let ?replies = "\<lambda>k::nat. if k = 1 then Inl (ProviderError tooManyRequests) else votesFor ''B''"
  let ?w = "quietWorld\<lparr> w_voteReplies := ?replies \<rparr>"
  let ?eng = "idle (debateAt FIXED 2 VOTING 2 None)"
  have d: "distinct (map agent_id council)" and j: "(1::nat) < length council"
    and ne: "council \<noteq> []"
    by (simp_all add: council_def agentNamed_def)
  have fails: "castVote (council ! 1) council (?replies 1) = Inl (ProviderError tooManyRequests)"
    by (simp add: castVote_def)
  have voters: "map voterId (collectedVotes council ?replies) = [''A'', ''C'']"
    by (simp add: collectedVotes_def council_def agentNamed_def votesFor_def castVote_def
          id_at_def at_index_def or_string_def or_number_def)
  note inst = failed_vote_is_omitted
                [of council ?replies 1 "ProviderError tooManyRequests" ?w ?eng Unparseable]
  note third = inst[THEN conjunct2, THEN conjunct2, THEN conjunct1]
  note fifth = inst[THEN conjunct2, THEN conjunct2, THEN conjunct2, THEN conjunct2]
  from d j fails
  have prem: "distinct (map agent_id council) \<and> 1 < length council
        \<and> castVote (council ! 1) council (?replies 1) = Inl (ProviderError tooManyRequests)"
    by (intro conjI)
  have "\<forall>v \<in> set (collectedVotes council ?replies). voterId v \<noteq> agent_id (council ! 1)"
    by (rule mp[OF third prem])
  moreover have "agent_id (council ! 1) = ''B''"
    by (simp add: council_def agentNamed_def)
  ultimately have absent: "''B'' \<notin> voterId ` set (collectedVotes council ?replies)" by auto
  have w: "w_verdictReply ?w = Inr Unparseable" "w_voteReplies ?w = ?replies"
    by (simp_all add: quietWorld_def)
  have "council \<noteq> [] \<and> w_verdictReply ?w = Inr Unparseable \<and> Unparseable \<noteq> JsonNull"
    using ne w(1) by simp
  from fifth[rule_format, OF this] obtain verdict
    where gen: "generateFinalVerdict (collectedVotes council (w_voteReplies ?w)) council
                  (w_verdictReply ?w) = Inr verdict"
      and held: "votes verdict = collectedVotes council (w_voteReplies ?w)"
      and step: "votingStep council ?w ?eng =
                 Settled (?eng\<lparr> debate := (billed ?w ((debate ?eng)\<lparr> isThinking := True \<rparr>))
                                   \<lparr> phase := VERDICT, isThinking := False,
                                     finalVerdict := Some verdict \<rparr>,
                               processingRef := False \<rparr>)"
    by blast
  have branch: "runDebateStep council ?w ?eng = votingStep council ?w ?eng"
    by (rule runDebateStep_votes)
       (simp_all add: idle_def debateAt_def INITIAL_STATE_def truthy_def)
  have same: "?eng\<lparr> debate := (billed ?w ((debate ?eng)\<lparr> isThinking := True \<rparr>))
                                   \<lparr> phase := VERDICT, isThinking := False,
                                     finalVerdict := Some verdict \<rparr>,
                               processingRef := False \<rparr>
              = idle ((debateAt FIXED 2 VOTING 2 None)
                            \<lparr> phase := VERDICT, finalVerdict := Some verdict \<rparr>)"
    by (simp add: idle_def billed_def quietWorld_def debateAt_def INITIAL_STATE_def)
  from branch step same
  have stored: "runDebateStep council ?w ?eng
         = Settled (idle ((debateAt FIXED 2 VOTING 2 None)
                            \<lparr> phase := VERDICT, finalVerdict := Some verdict \<rparr>))"
    by (simp only:)
  have shape: "generateFinalVerdict vs council (Inr Unparseable)
                 = Inr \<lparr> winnerId = ''A'', summary = ''Debate concluded.'', keyTakeaways = [],
                         votes = vs \<rparr>" for vs
    by (simp add: generateFinalVerdict_def or_string_def id_at_def at_index_def council_def
          agentNamed_def)
  have "generateFinalVerdict (collectedVotes council (w_voteReplies ?w)) council (w_verdictReply ?w)
          = Inr \<lparr> winnerId = ''A'', summary = ''Debate concluded.'', keyTakeaways = [],
                  votes = collectedVotes council (w_voteReplies ?w) \<rparr>"
    by (simp only: w(1) shape)
  with gen have "Inr verdict = (Inr \<lparr> winnerId = ''A'', summary = ''Debate concluded.'',
                    keyTakeaways = [], votes = collectedVotes council (w_voteReplies ?w) \<rparr>
                  :: error + FinalVerdict)"
    by (simp only:)
  then have is_v: "verdict = \<lparr> winnerId = ''A'', summary = ''Debate concluded.'',
                    keyTakeaways = [], votes = collectedVotes council (w_voteReplies ?w) \<rparr>"
    by (simp only: sum.inject)
  have who: "winnerId verdict = ''A''" "summary verdict = ''Debate concluded.''"
    by (simp_all only: is_v FinalVerdict.simps)
  have heldv: "map voterId (votes verdict) = [''A'', ''C'']"
    using voters by (simp only: held w(2))
  have last: "\<exists>verdict.
         runDebateStep council ?w ?eng
         = Settled (idle ((debateAt FIXED 2 VOTING 2 None)
                            \<lparr> phase := VERDICT, finalVerdict := Some verdict \<rparr>))
         \<and> winnerId verdict = ''A'' \<and> summary verdict = ''Debate concluded.''
         \<and> map voterId (votes verdict) = [''A'', ''C'']"
    using stored who heldv by (intro exI[of _ verdict] conjI)
  note all = conjI[OF d conjI[OF j conjI[OF fails conjI[OF voters conjI[OF absent last]]]]]
  show ?thesis by (rule all)
qed

section \<open>Rotation in fixed mode\<close>

lemma findIndex_nth:
  "distinct (map f xs) \<Longrightarrow> i < length xs \<Longrightarrow> findIndex (\<lambda>a. Some (f a) = Some (f (xs ! i))) xs = int i"
proof (induction xs arbitrary: i)
  case Nil then show ?case by simp
next
  case (Cons x xs)
  show ?case
  proof (cases i)
    case 0 then show ?thesis by simp
  next
    case (Suc j)
    with Cons.prems have j: "j < length xs" and d: "distinct (map f xs)" and nx: "f x \<notin> f ` set xs" by auto
    from j nx have "f x \<noteq> f (xs ! j)" by (metis imageI nth_mem)
    with Cons.IH[OF d j] Suc show ?thesis by (simp add: Let_def)
  qed
qed

lemma id_at_nth: "i < length agents \<Longrightarrow> id_at agents (int i) = Inr (agent_id (agents ! i))"
  by (simp add: id_at_def at_index_def)

lemma id_at_Suc:
  "Suc i < length agents \<Longrightarrow> id_at agents (int i + 1) = Inr (agent_id (agents ! Suc i))"
  by (simp add: id_at_def at_index_def nat_add_distrib)

lemma advance_mid:
  assumes "distinct (map agent_id agents)" "Suc i < length agents"
    "currentTurnAgentId s = Some (agent_id (agents ! i))" "\<not> userRequestedStop s" "phase s \<noteq> VOTING"
  shows "advanceTurn agents s =
           Inr (s\<lparr> currentTurnAgentId := Some (agent_id (agents ! Suc i)), phase := phase s,
                   currentRound := currentRound s, isThinking := False, thinkingAgentId := None \<rparr>)"
proof -
  from assms have fi: "findIndex (\<lambda>a. Some (agent_id a) = currentTurnAgentId s) agents = int i"
    using findIndex_nth[of agent_id agents i] by simp
  with assms show ?thesis
    by (simp add: advanceTurn_def finishTurn_def id_at_Suc)
qed




















section \<open>A turn whose generation fails\<close>

lemma find_nonempty: "find P xs = Some a \<Longrightarrow> xs \<noteq> []"
  by (cases xs) auto

lemma find_nth:
  "distinct (map f xs) \<Longrightarrow> i < length xs \<Longrightarrow> find (\<lambda>a. Some (f a) = Some (f (xs ! i))) xs = Some (xs ! i)"
proof (induction xs arbitrary: i)
  case Nil then show ?case by simp
next
  case (Cons x xs)
  show ?case
  proof (cases i)
    case 0 then show ?thesis by simp
  next
    case (Suc j)
    with Cons.prems have j: "j < length xs" and d: "distinct (map f xs)" and nx: "f x \<notin> f ` set xs" by auto
    from j nx have "f x \<noteq> f (xs ! j)" by (metis imageI nth_mem)
    with Cons.IH[OF d j] Suc show ?thesis by simp
  qed
qed

text \<open>The branch that resumes a turn after a user's answer has no \<open>catch\<close>: when its
  generation call fails, the exception leaves the step, nothing is appended and the
  turn is not advanced.\<close>

lemma resume_failure_escapes:
  assumes "find (\<lambda>a. Some (agent_id a) = currentTurnAgentId (debate eng)) agents = Some agent"
    and "transcript (debate eng) \<noteq> []" and "w_resumeReply w = Inl e"
  shows "resumeStep agents w eng = Escaped e (eng\<lparr> processingRef := False \<rparr>)"
  using assms by (simp add: resumeStep_def generateToolResponse_def)

text \<open>
  Claim C6, as amended. When the generation call that \<open>generateAgentTurn\<close> makes for
  an agent's turn raises, \<open>generateAgentTurn\<close> does not raise and does not call
  again: it returns the fixed filler text. The step that started the turn appends it
  as the agent's message and executes the rotation boundary on that state, so the turn
  is complete; in the middle of a roster with distinct ids (no stop requested, phase
  not VOTING) the turn passes to the next agent in the same phase. When instead the
  resume call after a web search raises within the step, no message is appended, and
  the step's \<open>catch\<close> executes the rotation boundary all the same.
\<close>

theorem failed_turn_degrades_to_filler:
  "generateAgentTurn (Inl e) =
     \<lparr> resp_text = ''Error generating response.'', resp_citations = None,
       resp_toolCall = None, resp_searchQueries = 0 \<rparr>
   \<and> (find (\<lambda>a. Some (agent_id a) = currentTurnAgentId (debate eng)) agents = Some agent
        \<and> w_turnReply w = Inl e
      \<longrightarrow> (\<exists>s'. advanceTurn agents (fillerTurn agent w (debate eng)) = Inr s'
                \<and> startStep agents w eng = Settled (eng\<lparr> debate := s', processingRef := False \<rparr>)))
   \<and> (distinct (map agent_id agents) \<and> Suc i < length agents
        \<and> currentTurnAgentId (debate eng) = Some (agent_id (agents ! i))
        \<and> \<not> userRequestedStop (debate eng) \<and> phase (debate eng) \<noteq> VOTING
        \<and> w_turnReply w = Inl e
      \<longrightarrow> escaped (startStep agents w eng) = None
          \<and> currentTurnAgentId (debate (engine_of (startStep agents w eng)))
              = Some (agent_id (agents ! Suc i))
          \<and> phase (debate (engine_of (startStep agents w eng))) = phase (debate eng)
          \<and> map content (transcript (debate (engine_of (startStep agents w eng))))
              = map content (transcript (debate eng)) @ [''Error generating response.''])
   \<and> (find (\<lambda>a. Some (agent_id a) = currentTurnAgentId (debate eng)) agents = Some agent
        \<and> w_turnReply w = Inr r \<and> resp_toolCall r = Some tc \<and> tool_name tc = ''search_web''
        \<and> w_resumeReply w = Inl e
      \<longrightarrow> (\<exists>s'. advanceTurn agents
                   (billed w ((debate eng)\<lparr> isThinking := True,
                                thinkingAgentId := currentTurnAgentId (debate eng) \<rparr>)) = Inr s'
                \<and> startStep agents w eng
                    = Settled (eng\<lparr> debate := s', processingRef := False,
                                    pendingToolCallRef := Some (tool_id tc, tool_name tc) \<rparr>)))"
proof -
  have filler: "generateAgentTurn (Inl e) =
     \<lparr> resp_text = ''Error generating response.'', resp_citations = None,
       resp_toolCall = None, resp_searchQueries = 0 \<rparr>"
    by (simp add: generateAgentTurn_def)
  have step: "\<exists>s'. advanceTurn agents (fillerTurn agent w (debate eng)) = Inr s'
                \<and> startStep agents w eng = Settled (eng\<lparr> debate := s', processingRef := False \<rparr>)"
    if f: "find (\<lambda>a. Some (agent_id a) = currentTurnAgentId (debate eng)) agents = Some agent"
      and t: "w_turnReply w = Inl e" for agent
  proof -
    from advanceTurn_total[OF find_nonempty[OF f]] obtain s'
      where s': "advanceTurn agents (fillerTurn agent w (debate eng)) = Inr s'" by blast
    with f t have "startStep agents w eng = Settled (eng\<lparr> debate := s', processingRef := False \<rparr>)"
      by (simp add: startStep_def Let_def filler rotate_def fillerTurn_def)
    with s' show ?thesis by blast
  qed
  have nxt: "escaped (startStep agents w eng) = None
          \<and> currentTurnAgentId (debate (engine_of (startStep agents w eng)))
              = Some (agent_id (agents ! Suc i))
          \<and> phase (debate (engine_of (startStep agents w eng))) = phase (debate eng)
          \<and> map content (transcript (debate (engine_of (startStep agents w eng))))
              = map content (transcript (debate eng)) @ [''Error generating response.'']"
    if d: "distinct (map agent_id agents)" and i: "Suc i < length agents"
      and cur: "currentTurnAgentId (debate eng) = Some (agent_id (agents ! i))"
      and ns: "\<not> userRequestedStop (debate eng)" and ph: "phase (debate eng) \<noteq> VOTING"
      and t: "w_turnReply w = Inl e"
  proof -
    let ?s = "fillerTurn (agents ! i) w (debate eng)"
    from i have i': "i < length agents" by simp
    from find_nth[OF d i', of ] cur
    have f: "find (\<lambda>a. Some (agent_id a) = currentTurnAgentId (debate eng)) agents = Some (agents ! i)"
      by simp
    have cur': "currentTurnAgentId ?s = Some (agent_id (agents ! i))"
      and ns': "\<not> userRequestedStop ?s" and ph': "phase ?s \<noteq> VOTING"
      using cur ns ph by (simp_all add: fillerTurn_def addMessage_def billed_def)
    from advance_mid[OF d i cur' ns' ph']
    have adv: "advanceTurn agents ?s =
           Inr (?s\<lparr> currentTurnAgentId := Some (agent_id (agents ! Suc i)), phase := phase ?s,
                   currentRound := currentRound ?s, isThinking := False, thinkingAgentId := None \<rparr>)" .
    from step[OF f t] adv
    have "startStep agents w eng =
            Settled (eng\<lparr> debate := ?s\<lparr> currentTurnAgentId := Some (agent_id (agents ! Suc i)),
                              phase := phase ?s, currentRound := currentRound ?s,
                              isThinking := False, thinkingAgentId := None \<rparr>,
                          processingRef := False \<rparr>)"
      by auto
    then show ?thesis
      by (simp add: escaped_def engine_of_def fillerTurn_def addMessage_def billed_def)
  qed
  have search: "\<exists>s'. advanceTurn agents
                   (billed w ((debate eng)\<lparr> isThinking := True,
                                thinkingAgentId := currentTurnAgentId (debate eng) \<rparr>)) = Inr s'
                \<and> startStep agents w eng
                    = Settled (eng\<lparr> debate := s', processingRef := False,
                                    pendingToolCallRef := Some (tool_id tc, tool_name tc) \<rparr>)"
    if f: "find (\<lambda>a. Some (agent_id a) = currentTurnAgentId (debate eng)) agents = Some agent"
      and t: "w_turnReply w = Inr r" and tc: "resp_toolCall r = Some tc"
      and nm: "tool_name tc = ''search_web''" and rs: "w_resumeReply w = Inl e"
  proof -
    from advanceTurn_total[OF find_nonempty[OF f]] obtain s'
      where s': "advanceTurn agents
                   (billed w ((debate eng)\<lparr> isThinking := True,
                                thinkingAgentId := currentTurnAgentId (debate eng) \<rparr>)) = Inr s'"
      by blast
    from t tc have "generateAgentTurn (w_turnReply w) = r" by (simp add: generateAgentTurn_def)
    with f tc nm rs s'
    have "startStep agents w eng
                    = Settled (eng\<lparr> debate := s', processingRef := False,
                                    pendingToolCallRef := Some (tool_id tc, tool_name tc) \<rparr>)"
      by (simp add: startStep_def Let_def rotate_def generateToolResponse_def)
    with s' show ?thesis by blast
  qed
  from filler step nxt search show ?thesis by blast
qed

theorem failed_turn_degrades_to_filler_witness:
  "distinct (map agent_id council) \<and> Suc 0 < length council
   \<and> currentTurnAgentId (debate (idle (debateAt FIXED 2 OPENING 1 (Some ''A''))))
       = Some (agent_id (council ! 0))
   \<and> currentTurnAgentId (debate (engine_of (startStep council
         (quietWorld\<lparr> w_turnReply := Inl (ProviderError tooManyRequests) \<rparr>)
         (idle (debateAt FIXED 2 OPENING 1 (Some ''A''))))))
       = Some ''B''
   \<and> map content (transcript (debate (engine_of (startStep council
         (quietWorld\<lparr> w_turnReply := Inl (ProviderError tooManyRequests) \<rparr>)
         (idle (debateAt FIXED 2 OPENING 1 (Some ''A'')))))))
       = [''Error generating response.'']"
proof -
  have d: "distinct (map agent_id council)" and i: "Suc 0 < length council"
    and b: "agent_id (council ! Suc 0) = ''B''"
    by (simp_all add: council_def agentNamed_def)
  have cur: "currentTurnAgentId (debate (idle (debateAt FIXED 2 OPENING 1 (Some ''A''))))
       = Some (agent_id (council ! 0))"
    and rest: "\<not> userRequestedStop (debate (idle (debateAt FIXED 2 OPENING 1 (Some ''A''))))"
      "phase (debate (idle (debateAt FIXED 2 OPENING 1 (Some ''A'')))) \<noteq> VOTING"
      "transcript (debate (idle (debateAt FIXED 2 OPENING 1 (Some ''A'')))) = []"
    by (simp_all add: idle_def debateAt_def INITIAL_STATE_def council_def agentNamed_def)
  have t: "w_turnReply (quietWorld\<lparr> w_turnReply := Inl (ProviderError tooManyRequests) \<rparr>)
             = Inl (ProviderError tooManyRequests)"
    by simp
  from failed_turn_degrades_to_filler
         [of "ProviderError tooManyRequests" "idle (debateAt FIXED 2 OPENING 1 (Some ''A''))"
             council "agentNamed ''A''"
             "quietWorld\<lparr> w_turnReply := Inl (ProviderError tooManyRequests) \<rparr>" 0]
       d i cur rest t b
  show ?thesis by simp
qed

text \<open>The claim as the specification states it fails for a turn whose web-search
  resume call raises: the executor raises, and the step ends with the turn passed on
  and no filler message in the transcript.\<close>

theorem failed_search_resume_leaves_no_filler:
  "generateToolResponse (Inl (ProviderError tooManyRequests)) = Inl (ProviderError tooManyRequests)
   \<and> runDebateStep council
        (quietWorld\<lparr> w_turnReply := Inr \<lparr> resp_text = [], resp_citations = None,
                                           resp_toolCall = Some searchCall, resp_searchQueries = 0 \<rparr>,
                      w_resumeReply := Inl (ProviderError tooManyRequests) \<rparr>)
        (idle (debateAt FIXED 2 OPENING 1 (Some ''A'')))
      = Settled \<lparr> debate = (debateAt FIXED 2 OPENING 1 (Some ''A''))
                              \<lparr> currentTurnAgentId := Some ''B'', thinkingAgentId := None \<rparr>,
                  processingRef = False, pendingToolCallRef = Some (''call-1'', ''search_web'') \<rparr>
   \<and> transcript (debateAt FIXED 2 OPENING 1 (Some ''A'')) = []"
  by (simp add: runDebateStep_def startStep_def generateAgentTurn_def generateToolResponse_def
        rotate_def advanceTurn_def finishTurn_def billed_def searchCall_def
        idle_def debateAt_def INITIAL_STATE_def quietWorld_def council_def agentNamed_def
        id_at_def at_index_def truthy_def Let_def)

section \<open>The orchestrator's decision\<close>

text \<open>
  Claim C4, as amended. When the orchestrator call returns without usable structured
  output (text that does not parse, or an object that does not say
  \<open>shouldConclude: true\<close>), the decision has \<open>shouldConclude = (currentRound > 5)\<close>;
  past round 5 every reply that returns (and is not \<open>null\<close>) concludes, and the step
  moves to VOTING with no active turn. When the call itself fails, there is no
  decision: \<open>orchestratorDecide\<close> raises, and the step's \<open>catch\<close> continues the
  debate at REBUTTAL with the first agent, the round unchanged, whatever the round.
\<close>

theorem orchestrator_fallback:
  "(rnd > 5 \<and> reply = Inr p \<and> p \<noteq> JsonNull \<longrightarrow>
      (\<exists>d. orchestratorDecide rnd reply = Inr d \<and> shouldConclude d))
   \<and> (reply = Inr Unparseable \<or> (\<exists>j. reply = Inr (JsonObject j) \<and> dj_shouldConclude j \<noteq> Some True)
      \<longrightarrow> (\<exists>d. orchestratorDecide rnd reply = Inr d \<and> shouldConclude d = (rnd > 5)))
   \<and> (currentRound (debate eng) > 5 \<and> w_decisionReply w = Inr p \<and> p \<noteq> JsonNull
      \<longrightarrow> escaped (orchestratorStep agents w eng) = None
          \<and> phase (debate (engine_of (orchestratorStep agents w eng))) = VOTING
          \<and> currentTurnAgentId (debate (engine_of (orchestratorStep agents w eng))) = None)
   \<and> (w_decisionReply w = Inl e \<and> agents \<noteq> []
      \<longrightarrow> orchestratorDecide (currentRound (debate eng)) (w_decisionReply w) = Inl e
          \<and> orchestratorStep agents w eng =
              Settled (eng\<lparr> debate := (debate eng)\<lparr> isThinking := False,
                                currentTurnAgentId := Some (agent_id (hd agents)),
                                phase := REBUTTAL \<rparr>,
                            processingRef := False \<rparr>))"
proof -
  have a: "\<exists>d. orchestratorDecide rnd reply = Inr d \<and> shouldConclude d"
    if "rnd > 5" "reply = Inr p" "p \<noteq> JsonNull"
    using that by (cases p) (simp_all add: orchestratorDecide_def)
  have b: "\<exists>d. orchestratorDecide rnd reply = Inr d \<and> shouldConclude d = (rnd > 5)"
    if "reply = Inr Unparseable \<or> (\<exists>j. reply = Inr (JsonObject j) \<and> dj_shouldConclude j \<noteq> Some True)"
    using that by (auto simp: orchestratorDecide_def)
  have c: "escaped (orchestratorStep agents w eng) = None
          \<and> phase (debate (engine_of (orchestratorStep agents w eng))) = VOTING
          \<and> currentTurnAgentId (debate (engine_of (orchestratorStep agents w eng))) = None"
    if "currentRound (debate eng) > 5" "w_decisionReply w = Inr p" "p \<noteq> JsonNull"
    using that
    by (cases p) (simp_all add: orchestratorStep_def orchestratorDecide_def Let_def escaped_def
          engine_of_def addMessage_def billed_def)
  have d: "orchestratorDecide (currentRound (debate eng)) (w_decisionReply w) = Inl e
          \<and> orchestratorStep agents w eng =
              Settled (eng\<lparr> debate := (debate eng)\<lparr> isThinking := False,
                                currentTurnAgentId := Some (agent_id (hd agents)),
                                phase := REBUTTAL \<rparr>,
                            processingRef := False \<rparr>)"
    if "w_decisionReply w = Inl e" "agents \<noteq> []"
    using that
    by (simp add: orchestratorStep_def orchestratorDecide_def Let_def restartAtFirst_def id_at_first)
  from a b c d show ?thesis by blast
qed

theorem orchestrator_fallback_witness:
  "(6::int) > 5
   \<and> (\<exists>d. orchestratorDecide 6 (Inr Unparseable) = Inr d \<and> shouldConclude d)
   \<and> phase (debate (engine_of (orchestratorStep council quietWorld
         (idle (debateAt AUTO 2 SYNTHESIS 6 (Some ''ORCHESTRATOR'')))))) = VOTING
   \<and> orchestratorStep council (quietWorld\<lparr> w_decisionReply := Inl (ProviderError tooManyRequests) \<rparr>)
        (idle (debateAt AUTO 2 SYNTHESIS 6 (Some ''ORCHESTRATOR'')))
      = Settled (idle ((debateAt AUTO 2 SYNTHESIS 6 (Some ''ORCHESTRATOR''))
                         \<lparr> currentTurnAgentId := Some ''A'', phase := REBUTTAL \<rparr>))"
proof -
  have ne: "council \<noteq> []" and hdA: "agent_id (hd council) = ''A''"
    by (simp_all add: council_def agentNamed_def)
  have r6: "currentRound (debate (idle (debateAt AUTO 2 SYNTHESIS 6 (Some ''ORCHESTRATOR'')))) = 6"
    by (simp add: idle_def debateAt_def)
  from orchestrator_fallback
         [of 6 "Inr Unparseable" Unparseable
             "idle (debateAt AUTO 2 SYNTHESIS 6 (Some ''ORCHESTRATOR''))" quietWorld council]
       r6
  have returned: "\<exists>d. orchestratorDecide 6 (Inr Unparseable) = Inr d \<and> shouldConclude d"
    and concluded: "phase (debate (engine_of (orchestratorStep council quietWorld
         (idle (debateAt AUTO 2 SYNTHESIS 6 (Some ''ORCHESTRATOR'')))))) = VOTING"
    by (simp_all add: quietWorld_def)
  from orchestrator_fallback
         [of 6 "Inr Unparseable" Unparseable
             "idle (debateAt AUTO 2 SYNTHESIS 6 (Some ''ORCHESTRATOR''))"
             "quietWorld\<lparr> w_decisionReply := Inl (ProviderError tooManyRequests) \<rparr>" council
             "ProviderError tooManyRequests"]
       ne hdA
  have failed: "orchestratorStep council
        (quietWorld\<lparr> w_decisionReply := Inl (ProviderError tooManyRequests) \<rparr>)
        (idle (debateAt AUTO 2 SYNTHESIS 6 (Some ''ORCHESTRATOR'')))
      = Settled (idle ((debateAt AUTO 2 SYNTHESIS 6 (Some ''ORCHESTRATOR''))
                         \<lparr> currentTurnAgentId := Some ''A'', phase := REBUTTAL \<rparr>))"
    by (simp add: idle_def debateAt_def INITIAL_STATE_def)
  from returned concluded failed show ?thesis by simp
qed

text \<open>The claim as the specification states it fails: in round 6 the call fails, no
  decision is produced, and the step continues the debate instead of concluding it.\<close>

theorem failed_orchestrator_call_continues:
  "orchestratorDecide 6 (Inl (ProviderError tooManyRequests)) = Inl (ProviderError tooManyRequests)
   \<and> runDebateStep council (quietWorld\<lparr> w_decisionReply := Inl (ProviderError tooManyRequests) \<rparr>)
        (idle (debateAt AUTO 2 SYNTHESIS 6 (Some ''ORCHESTRATOR'')))
      = Settled (idle ((debateAt AUTO 2 SYNTHESIS 6 (Some ''ORCHESTRATOR''))
                         \<lparr> currentTurnAgentId := Some ''A'', phase := REBUTTAL \<rparr>))
   \<and> phase (debate (engine_of (runDebateStep council
        (quietWorld\<lparr> w_decisionReply := Inl (ProviderError tooManyRequests) \<rparr>)
        (idle (debateAt AUTO 2 SYNTHESIS 6 (Some ''ORCHESTRATOR'')))))) \<noteq> VOTING"
  by (simp add: runDebateStep_def orchestratorStep_def orchestratorDecide_def restartAtFirst_def
        idle_def debateAt_def INITIAL_STATE_def quietWorld_def council_def agentNamed_def
        id_at_def at_index_def truthy_def engine_of_def Let_def)

end
